theory Spec2Isabelle
  imports Main "HOL-Library.AList"
begin

section \<open>Decoded payloads\<close>

text \<open>
  Every view of \<^verbatim>\<open>rpc_views.py\<close> first decodes the request body with the signing
  serializer (\<^verbatim>\<open>s.loads(request.data)\<close>) and answers with \<^verbatim>\<open>s.dumps(...)\<close> of a
  Python value. The serializer is a library; the views are modelled from the decoded
  payload on, and their answer is the Python value handed to \<^verbatim>\<open>s.dumps\<close>.
  Python's machine-sized \<^verbatim>\<open>int\<close> is \<open>PInt\<close>; a \<^verbatim>\<open>bool\<close> is a separate constructor,
  and \<^verbatim>\<open>isinstance(x, int)\<close> accepts both, as in Python. The serializer's format is
  JSON: the keys of a decoded dictionary are strings.
\<close>

datatype pyval =
    PNone
  | PBool bool
  | PInt int
  | PStr string
  | PList "pyval list"
  | PTuple "pyval list"
  | PDict "(pyval \<times> pyval) list"

datatype exc = AssertionError | KeyError | TypeError | AttributeError | ArgumentError | DBError

text \<open>
  A view fails either through \<^verbatim>\<open>abort(400)\<close> or through an exception nothing catches
  (the framework answers 500). In both cases the session is never committed, so the
  stored state is the one before the call: a failure carries no state.
\<close>

datatype failure = Abort nat | Uncaught exc

fun truthy :: "pyval \<Rightarrow> bool" where
  "truthy PNone = False"
| "truthy (PBool b) = b"
| "truthy (PInt i) = (i \<noteq> 0)"
| "truthy (PStr s) = (s \<noteq> [])"
| "truthy (PList xs) = (xs \<noteq> [])"
| "truthy (PTuple xs) = (xs \<noteq> [])"
| "truthy (PDict kvs) = (kvs \<noteq> [])"

fun isinstance_int :: "pyval \<Rightarrow> bool" where
  "isinstance_int (PInt i) = True"
| "isinstance_int (PBool b) = True"
| "isinstance_int v = False"

fun isinstance_bool :: "pyval \<Rightarrow> bool" where
  "isinstance_bool (PBool b) = True"
| "isinstance_bool v = False"

fun isinstance_list :: "pyval \<Rightarrow> bool" where
  "isinstance_list (PList xs) = True"
| "isinstance_list v = False"

fun isinstance_dict :: "pyval \<Rightarrow> bool" where
  "isinstance_dict (PDict kvs) = True"
| "isinstance_dict v = False"

text \<open>The integer a value accepted by \<^verbatim>\<open>isinstance(x, int)\<close> stands for (\<^verbatim>\<open>True == 1\<close>).\<close>

fun int_of :: "pyval \<Rightarrow> int" where
  "int_of (PInt i) = i"
| "int_of (PBool b) = (if b then 1 else 0)"
| "int_of v = 0"

fun is_substring :: "string \<Rightarrow> string \<Rightarrow> bool" where
  "is_substring k [] = (k = [])"
| "is_substring k (c # cs) = (take (length k) (c # cs) = k \<or> is_substring k cs)"

text \<open>\<^verbatim>\<open>key in data\<close> for a string key.\<close>

fun contains :: "string \<Rightarrow> pyval \<Rightarrow> exc + bool" where
  "contains k (PDict kvs) = Inr (map_of kvs (PStr k) \<noteq> None)"
| "contains k (PList xs) = Inr (PStr k \<in> set xs)"
| "contains k (PTuple xs) = Inr (PStr k \<in> set xs)"
| "contains k (PStr s) = Inr (is_substring k s)"
| "contains k v = Inl TypeError"

text \<open>\<^verbatim>\<open>data[key]\<close> for a string key.\<close>

fun getitem :: "pyval \<Rightarrow> string \<Rightarrow> exc + pyval" where
  "getitem (PDict kvs) k =
     (case map_of kvs (PStr k) of None \<Rightarrow> Inl KeyError | Some v \<Rightarrow> Inr v)"
| "getitem v k = Inl TypeError"

fun py_len :: "pyval \<Rightarrow> exc + nat" where
  "py_len (PStr s) = Inr (length s)"
| "py_len (PList xs) = Inr (length xs)"
| "py_len (PTuple xs) = Inr (length xs)"
| "py_len (PDict kvs) = Inr (length kvs)"
| "py_len v = Inl TypeError"

text \<open>\<^verbatim>\<open>try: ... except AssertionError: abort(400)\<close>: any other exception passes through.\<close>

fun except_AssertionError :: "exc + 'a \<Rightarrow> failure + 'a" where
  "except_AssertionError (Inl AssertionError) = Inl (Abort 400)"
| "except_AssertionError (Inl e) = Inl (Uncaught e)"
| "except_AssertionError (Inr x) = Inr x"

section \<open>The stored tables\<close>

text \<open>
  Modelled from the spec: the models (\<^verbatim>\<open>TradeRequest\<close>, \<^verbatim>\<open>Payout\<close>, its block,
  \<^verbatim>\<open>Transaction\<close>, \<^verbatim>\<open>TransactionSummary\<close>) are declared in \<^verbatim>\<open>models.py\<close>, which is
  not among the sources. The columns below are the ones the views read and write, typed
  as the data model of the specification has them; \<open>sr_status\<close> is the integer column
  \<^verbatim>\<open>_status\<close>, and a payout names its block by the block's key, the join of
  \<^verbatim>\<open>Payout.block\<close>. A table is the list of its rows.
\<close>

record trade_request =
  sr_id :: int
  sr_currency :: string
  sr_quantity :: int
  sr_status :: int
  sr_locked :: bool
  sr_exchanged_quantity :: "int option"

record block =
  b_key :: string
  b_mature :: bool

record payout =
  p_id :: int
  p_user :: string
  p_amount :: int
  p_block :: string
  p_locked :: bool
  p_merged_type :: "string option"
  p_transaction_id :: "string option"

record transaction =
  t_txid :: string
  t_confirmed :: bool
  t_merged_type :: "string option"

record transaction_summary =
  ts_transaction_id :: string
  ts_user :: string
  ts_amount :: int
  ts_count :: int

record db =
  trade_requests :: "trade_request list"
  blocks :: "block list"
  payouts :: "payout list"
  transactions :: "transaction list"
  summaries :: "transaction_summary list"

type_synonym response = "failure + (pyval \<times> db)"

definition success :: "string \<Rightarrow> pyval" where
  "success msg = PDict [(PStr ''success'', PBool True), (PStr ''result'', PStr msg)]"

text \<open>The stored state once a call has been answered: a failed call commits nothing.\<close>

definition state_after :: "db \<Rightarrow> response \<Rightarrow> db" where
  "state_after s r = (case r of Inl f \<Rightarrow> s | Inr (v, s') \<Rightarrow> s')"

text \<open>An exception that no handler of the view catches.\<close>

fun uncaught :: "exc + 'a \<Rightarrow> failure + 'a" where
  "uncaught (Inl e) = Inl (Uncaught e)"
| "uncaught (Inr x) = Inr x"

definition ebind :: "exc + 'a \<Rightarrow> ('a \<Rightarrow> exc + 'b) \<Rightarrow> exc + 'b" where
  "ebind m f = (case m of Inl e \<Rightarrow> Inl e | Inr x \<Rightarrow> f x)"

definition assert :: "bool \<Rightarrow> exc + unit" where
  "assert b = (if b then Inr () else Inl AssertionError)"

text \<open>The elements a \<^verbatim>\<open>for\<close> loop or \<^verbatim>\<open>in_\<close> sees in a list value.\<close>

fun elems :: "pyval \<Rightarrow> pyval list" where
  "elems (PList xs) = xs"
| "elems (PTuple xs) = xs"
| "elems v = []"

fun items :: "pyval \<Rightarrow> (pyval \<times> pyval) list" where
  "items (PDict kvs) = kvs"
| "items v = []"

text \<open>\<^verbatim>\<open>for id in xs: assert isinstance(id, int)\<close>\<close>

fun assert_each_int :: "pyval list \<Rightarrow> exc + unit" where
  "assert_each_int [] = Inr ()"
| "assert_each_int (x # xs) = ebind (assert (isinstance_int x)) (\<lambda>_. assert_each_int xs)"

text \<open>\<^verbatim>\<open>if isinstance(args, dict) and args['lock']: lock = True\<close>\<close>

definition lock_of :: "pyval \<Rightarrow> exc + bool" where
  "lock_of args =
     (if isinstance_dict args then ebind (getitem args ''lock'') (\<lambda>v. Inr (truthy v))
      else Inr False)"

text \<open>\<^verbatim>\<open>if isinstance(args, dict) and args['merged']: merged = args['merged']\<close>,
  with \<^verbatim>\<open>merged = None\<close> before.\<close>

definition merged_of :: "pyval \<Rightarrow> exc + pyval" where
  "merged_of args =
     (if isinstance_dict args
      then ebind (getitem args ''merged'') (\<lambda>v. Inr (if truthy v then v else PNone))
      else Inr PNone)"

text \<open>
  \<^verbatim>\<open>filter_by(column=value)\<close> on a nullable string column: \<^verbatim>\<open>None\<close> selects the rows
  where the column is null, a string the rows that hold it; no row holds a value of
  another type.
\<close>

fun column_eq :: "string option \<Rightarrow> pyval \<Rightarrow> bool" where
  "column_eq c PNone = (c = None)"
| "column_eq c (PStr t) = (c = Some t)"
| "column_eq c v = False"

text \<open>A value written to a string column; the flush fails on any other type.\<close>

fun string_column :: "pyval \<Rightarrow> exc + string" where
  "string_column (PStr t) = Inr t"
| "string_column v = Inl DBError"

fun nullable_string_column :: "pyval \<Rightarrow> exc + string option" where
  "nullable_string_column PNone = Inr None"
| "nullable_string_column (PStr t) = Inr (Some t)"
| "nullable_string_column v = Inl DBError"

section \<open>get\_sell\_requests\<close>

text \<open>
  \<^verbatim>\<open>for sr in sell_requests: sr.locked = True\<close>: each object is the row with its
  primary key, which the flush updates.
\<close>

fun lock_each :: "trade_request list \<Rightarrow> trade_request list \<Rightarrow> trade_request list" where
  "lock_each [] rows = rows"
| "lock_each (sr # srs) rows =
     lock_each srs (map (\<lambda>r. if sr_id r = sr_id sr then r\<lparr>sr_locked := True\<rparr> else r) rows)"

definition pending_unlocked :: "db \<Rightarrow> trade_request list" where
  "pending_unlocked s = filter (\<lambda>sr. sr_status sr = 0 \<and> sr_locked sr = False) (trade_requests s)"

text \<open>\<^verbatim>\<open>(sr.id, sr.currency, sr.quantity)\<close>\<close>

definition sr_tuple :: "trade_request \<Rightarrow> pyval" where
  "sr_tuple sr = PTuple [PInt (sr_id sr), PStr (sr_currency sr), PInt (sr_quantity sr)]"

definition get_sell_requests :: "pyval \<Rightarrow> db \<Rightarrow> response" where
  "get_sell_requests args s =
     (case uncaught (lock_of args) of
        Inl f \<Rightarrow> Inl f
      | Inr lock \<Rightarrow>
          (let sell_requests = pending_unlocked s;
               srs = map sr_tuple sell_requests;
               s' = (if lock
                     then s\<lparr>trade_requests := lock_each sell_requests (trade_requests s)\<rparr>
                     else s)
           in Inr (PList [PList srs, PBool lock], s')))"

section \<open>update\_sell\_requests\<close>

text \<open>\<^verbatim>\<open>for sr_id, quantity in ...iteritems(): assert isinstance(sr_id, int); assert
  isinstance(quantity, int)\<close>\<close>

fun assert_items_int :: "(pyval \<times> pyval) list \<Rightarrow> exc + unit" where
  "assert_items_int [] = Inr ()"
| "assert_items_int ((sr, quantity) # kvs) =
     ebind (assert (isinstance_int sr)) (\<lambda>_.
     ebind (assert (isinstance_int quantity)) (\<lambda>_. assert_items_int kvs))"

definition check_update_sell_requests :: "pyval \<Rightarrow> exc + unit" where
  "check_update_sell_requests data =
     ebind (contains ''completed_srs'' data) (\<lambda>present.
     ebind (assert present) (\<lambda>_.
     ebind (getitem data ''completed_srs'') (\<lambda>completed.
     ebind (assert (isinstance_dict completed)) (\<lambda>_.
     assert_items_int (items completed)))))"

text \<open>
  \<^verbatim>\<open>TradeRequest.query.filter(TradeRequest)\<close>: the argument is the mapped class itself,
  not a SQL expression, and the query refuses it with \<^verbatim>\<open>ArgumentError\<close> whatever
  the rows are.
\<close>

definition filter_TradeRequest :: "trade_request list \<Rightarrow> exc + trade_request list" where
  "filter_TradeRequest rows = Inl ArgumentError"

text \<open>
  The loop of the update, one query per item: \<^verbatim>\<open>.filter(TradeRequest)\<close>, then
  \<^verbatim>\<open>.filter_by(id=ts_id).first()\<close>, which is \<^verbatim>\<open>None\<close> when no row has the id (the
  assignment to its attribute then raises). The status written is the code \<open>4\<close>.
\<close>

fun complete_each :: "(pyval \<times> pyval) list \<Rightarrow> trade_request list \<Rightarrow> exc + trade_request list" where
  "complete_each [] rows = Inr rows"
| "complete_each ((ts_id, quantity) # kvs) rows =
     (case filter_TradeRequest rows of
        Inl e \<Rightarrow> Inl e
      | Inr found \<Rightarrow>
          (case find (\<lambda>r. sr_id r = int_of ts_id) found of
             None \<Rightarrow> Inl AttributeError
           | Some ts \<Rightarrow>
               complete_each kvs
                 (map (\<lambda>r. if sr_id r = sr_id ts
                           then r\<lparr>sr_exchanged_quantity := Some (int_of quantity), sr_status := 4\<rparr>
                           else r) rows)))"

definition update_sell_requests :: "pyval \<Rightarrow> db \<Rightarrow> response" where
  "update_sell_requests data s =
     (case except_AssertionError (check_update_sell_requests data) of
        Inl f \<Rightarrow> Inl f
      | Inr _ \<Rightarrow>
          uncaught
            (ebind (getitem data ''update'') (\<lambda>update.
             ebind (getitem data ''completed_srs'') (\<lambda>completed.
             if truthy update \<and> truthy completed
             then ebind (complete_each (items completed) (trade_requests s)) (\<lambda>rows.
                    Inr (success ''Sell requests successfully updated.'',
                         s\<lparr>trade_requests := rows\<rparr>))
             else Inr (PBool True, s)))))"

section \<open>get\_final\_payouts\<close>

definition get_final_payouts :: "pyval \<Rightarrow> db \<Rightarrow> pyval \<times> db" where
  "get_final_payouts args s =
     (let final_payouts = ([] :: (int \<times> int \<times> string) list);
          fps = map (\<lambda>(i, q, c). PTuple [PInt i, PInt q, PStr c]) final_payouts
      in (PList [PList fps], s))"

section \<open>get\_payouts\<close>

text \<open>
  The query: payouts with no transaction, not locked, of the requested merged type,
  joined with their block, which has to be mature.
\<close>

definition eligible_payouts :: "pyval \<Rightarrow> db \<Rightarrow> payout list" where
  "eligible_payouts merged s =
     filter (\<lambda>p. p_transaction_id p = None \<and> p_locked p = False
                \<and> column_eq (p_merged_type p) merged
                \<and> (\<exists>b \<in> set (blocks s). b_key b = p_block p \<and> b_mature b = True))
            (payouts s)"

text \<open>\<^verbatim>\<open>(p.user, p.amount, p.id)\<close>\<close>

definition payout_tuple :: "payout \<Rightarrow> pyval" where
  "payout_tuple p = PTuple [PStr (p_user p), PInt (p_amount p), PInt (p_id p)]"

definition get_payouts :: "pyval \<Rightarrow> db \<Rightarrow> response" where
  "get_payouts args s =
     (case uncaught (ebind (lock_of args) (\<lambda>lock. ebind (merged_of args) (\<lambda>merged. Inr (lock, merged)))) of
        Inl f \<Rightarrow> Inl f
      | Inr (lock, merged) \<Rightarrow>
          (let rows = eligible_payouts merged s;
               pids = map payout_tuple rows;
               s' = (if lock \<and> pids \<noteq> []
                     then s\<lparr>payouts :=
                            map (\<lambda>p. if p_id p \<in> set (map p_id rows)
                                      then p\<lparr>p_locked := True\<rparr> else p) (payouts s)\<rparr>
                     else s)
           in Inr (PList [PList pids, PBool lock], s')))"

section \<open>update\_transactions\<close>

definition check_update_transactions :: "pyval \<Rightarrow> exc + unit" where
  "check_update_transactions data =
     ebind (contains ''coin_txid'' data) (\<lambda>has_txid.
     ebind (if has_txid
            then ebind (getitem data ''coin_txid'') (\<lambda>txid.
                 ebind (py_len txid) (\<lambda>n. assert (n = 64)))
            else ebind (contains ''reset'' data) (\<lambda>has_reset.
                 ebind (assert has_reset) (\<lambda>_.
                 ebind (getitem data ''reset'') (\<lambda>reset. assert (isinstance_bool reset))))) (\<lambda>_.
     ebind (getitem data ''pids'') (\<lambda>pids.
     ebind (assert (isinstance_list pids)) (\<lambda>_.
     ebind (getitem data ''bids'') (\<lambda>bids.
     ebind (assert (isinstance_list bids)) (\<lambda>_.
     ebind (assert_each_int (elems pids)) (\<lambda>_.
     assert_each_int (elems bids))))))))"

text \<open>
  Modelled from the spec: \<^verbatim>\<open>Transaction.create\<close> is defined in \<^verbatim>\<open>models.py\<close>. The
  create is idempotent: if a Transaction with that reference already exists it is reused,
  otherwise one row keyed by the reference is created, not yet confirmed.
\<close>

definition Transaction_create :: "string \<Rightarrow> string option \<Rightarrow> db \<Rightarrow> db" where
  "Transaction_create txid merged_type s =
     (if \<exists>t \<in> set (transactions s). t_txid t = txid then s
      else s\<lparr>transactions := transactions s @
              [\<lparr>t_txid = txid, t_confirmed = False, t_merged_type = merged_type\<rparr>]\<rparr>)"

text \<open>
  Modelled from the spec: \<^verbatim>\<open>TransactionSummary.create\<close> is defined in \<^verbatim>\<open>models.py\<close>.
  A commit writes one TransactionSummary per user: the create stores the row it is
  handed. The specification describes the reuse of an existing row for the Transaction
  only.
\<close>

definition TransactionSummary_create :: "string \<Rightarrow> string \<Rightarrow> int \<Rightarrow> int \<Rightarrow> db \<Rightarrow> db" where
  "TransactionSummary_create txid user amount count s =
     s\<lparr>summaries := summaries s @
        [\<lparr>ts_transaction_id = txid, ts_user = user, ts_amount = amount, ts_count = count\<rparr>]\<rparr>"

text \<open>
  The two dictionaries of the aggregation are association lists (the order of a
  dictionary's keys is not fixed in Python; nothing below depends on it).
\<close>

definition setdefault :: "('k \<times> 'v) list \<Rightarrow> 'k \<Rightarrow> 'v \<Rightarrow> ('k \<times> 'v) list" where
  "setdefault d k v = (case map_of d k of None \<Rightarrow> d @ [(k, v)] | Some _ \<Rightarrow> d)"

text \<open>\<^verbatim>\<open>d[k] += n\<close>\<close>

definition dict_incr :: "('k \<times> int) list \<Rightarrow> 'k \<Rightarrow> int \<Rightarrow> exc + ('k \<times> int) list" where
  "dict_incr d k n =
     (case map_of d k of None \<Rightarrow> Inl KeyError | Some v \<Rightarrow> Inr (AList.update k (v + n) d))"

text \<open>\<^verbatim>\<open>d[k]\<close>\<close>

definition dict_get :: "('k \<times> 'v) list \<Rightarrow> 'k \<Rightarrow> exc + 'v" where
  "dict_get d k = (case map_of d k of None \<Rightarrow> Inl KeyError | Some v \<Rightarrow> Inr v)"

text \<open>\<^verbatim>\<open>Payout.query.filter(Payout.id.in_(ids))\<close>\<close>

definition payouts_in :: "pyval \<Rightarrow> payout list \<Rightarrow> payout list" where
  "payouts_in ids rows = filter (\<lambda>p. p_id p \<in> set (map int_of (elems ids))) rows"

text \<open>\<^verbatim>\<open>Payout.query.filter(Payout.id.in_(ids)).update({Payout.transaction_id: txid})\<close>\<close>

definition link_payouts :: "pyval \<Rightarrow> string \<Rightarrow> payout list \<Rightarrow> payout list" where
  "link_payouts ids txid rows =
     map (\<lambda>p. if p_id p \<in> set (map int_of (elems ids))
               then p\<lparr>p_transaction_id := Some txid\<rparr> else p) rows"

text \<open>\<^verbatim>\<open>Payout.query.filter(Payout.id.in_(ids)).update({Payout.locked: False})\<close>\<close>

definition unlock_payouts :: "pyval \<Rightarrow> payout list \<Rightarrow> payout list" where
  "unlock_payouts ids rows =
     map (\<lambda>p. if p_id p \<in> set (map int_of (elems ids))
               then p\<lparr>p_locked := False\<rparr> else p) rows"

fun aggregate ::
  "payout list \<Rightarrow> (string \<times> int) list \<times> (string \<times> int) list
     \<Rightarrow> exc + ((string \<times> int) list \<times> (string \<times> int) list)" where
  "aggregate [] (user_counts, user_amounts) = Inr (user_counts, user_amounts)"
| "aggregate (payout # rest) (user_counts, user_amounts) =
     (let user_counts = setdefault user_counts (p_user payout) 0;
          user_amounts = setdefault user_amounts (p_user payout) 0
      in ebind (dict_incr user_amounts (p_user payout) (p_amount payout)) (\<lambda>user_amounts.
         ebind (dict_incr user_counts (p_user payout) 1) (\<lambda>user_counts.
         aggregate rest (user_counts, user_amounts))))"

text \<open>\<^verbatim>\<open>for user in user_counts: TransactionSummary.create(txid, user, user_amounts[user],
  user_counts[user])\<close>\<close>

fun create_summaries ::
  "string \<Rightarrow> string list \<Rightarrow> (string \<times> int) list \<Rightarrow> (string \<times> int) list \<Rightarrow> db \<Rightarrow> exc + db" where
  "create_summaries txid [] user_amounts user_counts s = Inr s"
| "create_summaries txid (user # users) user_amounts user_counts s =
     ebind (dict_get user_amounts user) (\<lambda>amount.
     ebind (dict_get user_counts user) (\<lambda>count.
     create_summaries txid users user_amounts user_counts
       (TransactionSummary_create txid user amount count s)))"

text \<open>\<^verbatim>\<open>data.get('merged', None)\<close>\<close>

definition get_merged :: "pyval \<Rightarrow> pyval" where
  "get_merged data = (case getitem data ''merged'' of Inl _ \<Rightarrow> PNone | Inr v \<Rightarrow> v)"

text \<open>The branch taken when the payload carries \<^verbatim>\<open>coin_txid\<close>.\<close>

definition associate :: "pyval \<Rightarrow> db \<Rightarrow> exc + (pyval \<times> db)" where
  "associate data s =
     ebind (getitem data ''coin_txid'') (\<lambda>coin_txid.
     ebind (string_column coin_txid) (\<lambda>txid.
     ebind (nullable_string_column (get_merged data)) (\<lambda>merged_type.
     ebind (getitem data ''pids'') (\<lambda>pids.
     (let s1 = Transaction_create txid merged_type s
      in ebind (aggregate (payouts_in pids (payouts s1)) ([], [])) (\<lambda>(user_counts, user_amounts).
         ebind (create_summaries txid (map fst user_counts) user_amounts user_counts s1) (\<lambda>s2.
         Inr (PBool True,
              if truthy pids
              then s2\<lparr>payouts := link_payouts pids txid (payouts s2)\<rparr>
              else s2))))))))"

text \<open>The branch taken when there is no \<^verbatim>\<open>coin_txid\<close> and \<^verbatim>\<open>data['reset']\<close> holds.\<close>

definition reset_locked :: "pyval \<Rightarrow> db \<Rightarrow> exc + (pyval \<times> db)" where
  "reset_locked data s =
     ebind (getitem data ''pids'') (\<lambda>pids.
     Inr (success ''Successfully reset'',
          if truthy pids
          then s\<lparr>payouts := unlock_payouts pids (payouts s)\<rparr>
          else s))"

definition update_transactions :: "pyval \<Rightarrow> db \<Rightarrow> response" where
  "update_transactions data s =
     (case except_AssertionError (check_update_transactions data) of
        Inl f \<Rightarrow> Inl f
      | Inr _ \<Rightarrow>
          uncaught
            (ebind (contains ''coin_txid'' data) (\<lambda>has_txid.
             if has_txid then associate data s
             else ebind (getitem data ''reset'') (\<lambda>reset.
                  if truthy reset then reset_locked data s
                  else Inr (PBool True, s)))))"

section \<open>confirm\_transactions\<close>

definition check_confirm_transactions :: "pyval \<Rightarrow> exc + unit" where
  "check_confirm_transactions data =
     ebind (getitem data ''tids'') (\<lambda>tids. assert (isinstance_list tids))"

definition confirm_transactions :: "pyval \<Rightarrow> db \<Rightarrow> response" where
  "confirm_transactions data s =
     (case except_AssertionError (check_confirm_transactions data) of
        Inl f \<Rightarrow> Inl f
      | Inr _ \<Rightarrow>
          uncaught
            (ebind (getitem data ''tids'') (\<lambda>tids.
             Inr (PBool True,
                  s\<lparr>transactions :=
                     map (\<lambda>t. if PStr (t_txid t) \<in> set (elems tids)
                               then t\<lparr>t_confirmed := True\<rparr> else t) (transactions s)\<rparr>))))"

section \<open>Notions used in the statements and proofs\<close>

text \<open>The value a dictionary holds for a key, \<open>0\<close> when the key is absent.\<close>

definition base :: "('k \<times> int) list \<Rightarrow> 'k \<Rightarrow> int" where
  "base d k = (case map_of d k of None \<Rightarrow> 0 | Some x \<Rightarrow> x)"

text \<open>The row the aggregation loop hands to \<^verbatim>\<open>TransactionSummary.create\<close> for a user.\<close>

definition summary_row ::
  "string \<Rightarrow> (string \<times> int) list \<Rightarrow> (string \<times> int) list \<Rightarrow> string \<Rightarrow> transaction_summary" where
  "summary_row txid ua uc u =
     \<lparr>ts_transaction_id = txid, ts_user = u, ts_amount = base ua u, ts_count = base uc u\<rparr>"

section \<open>Example data\<close>

definition example_txid :: string where
  "example_txid = replicate 64 (CHR ''a'')"

definition example_db :: db where
  "example_db =
     \<lparr>trade_requests =
        [\<lparr>sr_id = 1, sr_currency = ''LTC'', sr_quantity = 50, sr_status = 0,
          sr_locked = False, sr_exchanged_quantity = None\<rparr>,
         \<lparr>sr_id = 7, sr_currency = ''DOGE'', sr_quantity = 70, sr_status = 0,
          sr_locked = True, sr_exchanged_quantity = None\<rparr>],
      blocks =
        [\<lparr>b_key = ''b1'', b_mature = True\<rparr>, \<lparr>b_key = ''b2'', b_mature = False\<rparr>],
      payouts =
        [\<lparr>p_id = 1, p_user = ''A'', p_amount = 5, p_block = ''b1'', p_locked = False,
          p_merged_type = None, p_transaction_id = None\<rparr>,
         \<lparr>p_id = 2, p_user = ''A'', p_amount = 3, p_block = ''b1'', p_locked = False,
          p_merged_type = None, p_transaction_id = None\<rparr>,
         \<lparr>p_id = 3, p_user = ''B'', p_amount = 2, p_block = ''b1'', p_locked = False,
          p_merged_type = None, p_transaction_id = None\<rparr>,
         \<lparr>p_id = 4, p_user = ''C'', p_amount = 9, p_block = ''b2'', p_locked = False,
          p_merged_type = None, p_transaction_id = None\<rparr>,
         \<lparr>p_id = 7, p_user = ''C'', p_amount = 4, p_block = ''b1'', p_locked = True,
          p_merged_type = None, p_transaction_id = None\<rparr>],
      transactions = [],
      summaries = []\<rparr>"

text \<open>The same state with one transaction stored, not yet confirmed.\<close>

definition example_db_tx :: db where
  "example_db_tx =
     example_db\<lparr>transactions :=
       [\<lparr>t_txid = example_txid, t_confirmed = False, t_merged_type = None\<rparr>]\<rparr>"

definition claim_args :: pyval where
  "claim_args = PDict [(PStr ''lock'', PBool True), (PStr ''merged'', PNone)]"

definition commit_request :: pyval where
  "commit_request =
     PDict [(PStr ''coin_txid'', PStr example_txid),
            (PStr ''pids'', PList [PInt 1, PInt 2, PInt 3]),
            (PStr ''bids'', PList [])]"

definition malformed_request :: pyval where
  "malformed_request =
     PDict [(PStr ''coin_txid'', PStr example_txid),
            (PStr ''pids'', PList [PInt 1, PStr ''x'']),
            (PStr ''bids'', PList [])]"

text \<open>A commit payload with a non-integer payout id and no \<^verbatim>\<open>bids\<close>.\<close>

definition malformed_no_bids :: pyval where
  "malformed_no_bids =
     PDict [(PStr ''coin_txid'', PStr example_txid),
            (PStr ''pids'', PList [PStr ''x''])]"

text \<open>A commit payload whose proof is an integer, with a non-integer payout id.\<close>

definition malformed_unsized :: pyval where
  "malformed_unsized =
     PDict [(PStr ''coin_txid'', PInt 5),
            (PStr ''pids'', PList [PStr ''x'']),
            (PStr ''bids'', PList [])]"

text \<open>The example state once \<open>commit_request\<close> has been applied to it.\<close>

definition example_db_committed :: db where
  "example_db_committed =
     example_db
       \<lparr>payouts := link_payouts (PList [PInt 1, PInt 2, PInt 3]) example_txid (payouts example_db),
        transactions := [\<lparr>t_txid = example_txid, t_confirmed = False, t_merged_type = None\<rparr>],
        summaries :=
          [\<lparr>ts_transaction_id = example_txid, ts_user = ''A'', ts_amount = 8, ts_count = 2\<rparr>,
           \<lparr>ts_transaction_id = example_txid, ts_user = ''B'', ts_amount = 2, ts_count = 1\<rparr>]\<rparr>"

definition reset_request :: pyval where
  "reset_request =
     PDict [(PStr ''reset'', PBool True),
            (PStr ''pids'', PList []),
            (PStr ''bids'', PList [PInt 7])]"

definition reset_request_pids :: pyval where
  "reset_request_pids =
     PDict [(PStr ''reset'', PBool True),
            (PStr ''pids'', PList [PInt 7]),
            (PStr ''bids'', PList [])]"

text \<open>A payload for \<open>update_sell_requests\<close> with integer keys, as its check asks for.\<close>

definition sell_update_request :: pyval where
  "sell_update_request =
     PDict [(PStr ''update'', PBool True),
            (PStr ''completed_srs'', PDict [(PInt 1, PInt 40), (PInt 7, PInt 60)])]"

text \<open>The same payload as JSON delivers it: the keys of the dictionary are strings.\<close>

definition sell_update_json :: pyval where
  "sell_update_json =
     PDict [(PStr ''update'', PBool True),
            (PStr ''completed_srs'', PDict [(PStr ''1'', PInt 40), (PStr ''7'', PInt 60)])]"

text \<open>A payload that asks for no update.\<close>

definition sell_update_nothing :: pyval where
  "sell_update_nothing =
     PDict [(PStr ''update'', PBool False), (PStr ''completed_srs'', PDict [])]"

definition confirm_request :: pyval where
  "confirm_request = PDict [(PStr ''tids'', PList [PStr example_txid])]"

definition confirm_request_txids :: pyval where
  "confirm_request_txids = PDict [(PStr ''txids'', PList [PStr example_txid])]"

section \<open>Auxiliary lemmas\<close>

lemma lock_each_eq:
  "lock_each srs rows =
     map (\<lambda>r. if sr_id r \<in> sr_id ` set srs then r\<lparr>sr_locked := True\<rparr> else r) rows"
proof (induction srs arbitrary: rows)
  case Nil
  show ?case by simp
next
  case (Cons sr srs)
  show ?case by (simp add: Cons.IH comp_def) 
qed

lemma tuple_id_sr: "sr_tuple a = sr_tuple b \<Longrightarrow> sr_id a = sr_id b"
  by (simp add: sr_tuple_def)

lemma tuple_id_payout: "payout_tuple a = payout_tuple b \<Longrightarrow> p_id a = p_id b"
  by (simp add: payout_tuple_def)

lemma distinct_key_eq:
  "distinct (map f xs) \<Longrightarrow> a \<in> set xs \<Longrightarrow> b \<in> set xs \<Longrightarrow> f a = f b \<Longrightarrow> a = b"
  by (meson distinct_map inj_onD)

lemma column_eq_iff:
  "column_eq c m \<longleftrightarrow> (m = PNone \<and> c = None) \<or> (\<exists>t. m = PStr t \<and> c = Some t)"
  by (cases m) auto

lemma get_sell_requests_Inr:
  "get_sell_requests args s = Inr (resp, s') \<longleftrightarrow>
     (\<exists>lock. lock_of args = Inr lock
        \<and> resp = PList [PList (map sr_tuple (pending_unlocked s)), PBool lock]
        \<and> s' = (if lock then s\<lparr>trade_requests := lock_each (pending_unlocked s) (trade_requests s)\<rparr> else s))"
  by (cases "lock_of args") (auto simp: get_sell_requests_def Let_def)

lemma get_payouts_Inr:
  "get_payouts args s = Inr (resp, s') \<longleftrightarrow>
     (\<exists>lock merged. lock_of args = Inr lock \<and> merged_of args = Inr merged
        \<and> resp = PList [PList (map payout_tuple (eligible_payouts merged s)), PBool lock]
        \<and> s' = (if lock \<and> eligible_payouts merged s \<noteq> []
                 then s\<lparr>payouts := map (\<lambda>p. if p_id p \<in> set (map p_id (eligible_payouts merged s))
                                      then p\<lparr>p_locked := True\<rparr> else p) (payouts s)\<rparr>
                 else s))"
  by (cases "lock_of args"; cases "merged_of args") (auto simp: get_payouts_def Let_def ebind_def)

lemma id_in_sel_iff_sr:
  assumes d: "distinct (map sr_id rows)" and sub: "set sel \<subseteq> set rows" and r: "r \<in> set rows"
  shows "sr_id r \<in> sr_id ` set sel \<longleftrightarrow> sr_tuple r \<in> sr_tuple ` set sel"
proof
  assume "sr_id r \<in> sr_id ` set sel"
  then obtain q where q: "q \<in> set sel" "sr_id r = sr_id q" by auto
  with sub have "q \<in> set rows" by auto
  with d r q have "r = q" by (auto dest: distinct_key_eq)
  with q show "sr_tuple r \<in> sr_tuple ` set sel" by simp
next
  assume "sr_tuple r \<in> sr_tuple ` set sel"
  then show "sr_id r \<in> sr_id ` set sel" by (auto dest: tuple_id_sr)
qed

lemma id_in_sel_iff_payout:
  assumes d: "distinct (map p_id rows)" and sub: "set sel \<subseteq> set rows" and r: "r \<in> set rows"
  shows "p_id r \<in> p_id ` set sel \<longleftrightarrow> payout_tuple r \<in> payout_tuple ` set sel"
proof
  assume "p_id r \<in> p_id ` set sel"
  then obtain q where q: "q \<in> set sel" "p_id r = p_id q" by auto
  with sub have "q \<in> set rows" by auto
  with d r q have "r = q" by (auto dest: distinct_key_eq)
  with q show "payout_tuple r \<in> payout_tuple ` set sel" by simp
next
  assume "payout_tuple r \<in> payout_tuple ` set sel"
  then show "p_id r \<in> p_id ` set sel" by (auto dest: tuple_id_payout)
qed

lemma tuple_in_sel_payout:
  assumes d: "distinct (map p_id rows)" and sub: "set sel \<subseteq> set rows" and r: "r \<in> set rows"
    and t: "payout_tuple r \<in> payout_tuple ` set sel"
  shows "r \<in> set sel"
proof -
  from t obtain q where q: "q \<in> set sel" "payout_tuple r = payout_tuple q" by auto
  with sub have "q \<in> set rows" by auto
  with d r q have "r = q" by (auto dest: distinct_key_eq tuple_id_payout)
  with q show ?thesis by simp
qed

lemma assert_each_int_eq:
  "assert_each_int xs = (if list_all isinstance_int xs then Inr () else Inl AssertionError)"
  by (induction xs) (simp_all add: ebind_def assert_def)

lemma getitem_dict: "getitem data k = Inr v \<Longrightarrow> \<exists>kvs. data = PDict kvs \<and> map_of kvs (PStr k) = Some v"
  by (cases data) (auto split: option.splits)

lemma map_of_setdefault:
  "map_of (setdefault d k v) = (case map_of d k of None \<Rightarrow> (map_of d)(k \<mapsto> v) | Some _ \<Rightarrow> map_of d)"
  by (auto simp: setdefault_def fun_eq_iff map_add_def split: option.splits)

lemma keys_setdefault: "fst ` set (setdefault d k v) = insert k (fst ` set d)"
  by (auto simp: setdefault_def map_of_eq_None_iff split: option.splits intro: rev_image_eqI dest: map_of_SomeD)

lemma distinct_setdefault: "distinct (map fst d) \<Longrightarrow> distinct (map fst (setdefault d k v))"
  by (auto simp: setdefault_def map_of_eq_None_iff split: option.splits)

lemma dict_incr_setdefault:
  "dict_incr (setdefault d k 0) k n =
     Inr (AList.update k ((case map_of d k of None \<Rightarrow> 0 | Some x \<Rightarrow> x) + n) (setdefault d k 0))"
  by (simp add: dict_incr_def map_of_setdefault split: option.splits)

lemma filter_user_none: "u \<notin> p_user ` set rows \<Longrightarrow> filter (\<lambda>p. p_user p = u) rows = []"
  by (auto simp: filter_empty_conv)

lemma keys_update: "fst ` set (AList.update k v d) = insert k (fst ` set d)"
  by (induction d) auto

lemma aggregate_maps:
  "\<exists>uc ua. aggregate rows (c, a) = Inr (uc, ua)
     \<and> map_of ua = (\<lambda>u. if u \<in> p_user ` set rows
                         then Some (base a u + sum_list (map p_amount (filter (\<lambda>p. p_user p = u) rows)))
                         else map_of a u)
     \<and> map_of uc = (\<lambda>u. if u \<in> p_user ` set rows
                         then Some (base c u + int (length (filter (\<lambda>p. p_user p = u) rows)))
                         else map_of c u)
     \<and> fst ` set uc = fst ` set c \<union> p_user ` set rows
     \<and> (distinct (map fst c) \<longrightarrow> distinct (map fst uc))"
proof (induction rows arbitrary: c a)
  case Nil
  show ?case by simp
next
  case (Cons p rows)
  let ?k = "p_user p"
  let ?a = "AList.update ?k (base a ?k + p_amount p) (setdefault a ?k 0)"
  let ?c = "AList.update ?k (base c ?k + 1) (setdefault c ?k 0)"
  have step: "aggregate (p # rows) (c, a) = aggregate rows (?c, ?a)"
    by (simp add: Let_def dict_incr_setdefault ebind_def base_def)
  from Cons.IH [of ?c ?a] obtain uc ua where r: "aggregate rows (?c, ?a) = Inr (uc, ua)"
    and ma: "map_of ua = (\<lambda>u. if u \<in> p_user ` set rows
                         then Some (base ?a u + sum_list (map p_amount (filter (\<lambda>p. p_user p = u) rows)))
                         else map_of ?a u)"
    and mc: "map_of uc = (\<lambda>u. if u \<in> p_user ` set rows
                         then Some (base ?c u + int (length (filter (\<lambda>p. p_user p = u) rows)))
                         else map_of ?c u)"
    and keys: "fst ` set uc = fst ` set ?c \<union> p_user ` set rows"
    and dist: "distinct (map fst ?c) \<longrightarrow> distinct (map fst uc)"
    by blast
  have ba: "base ?a u = (if u = ?k then base a ?k + p_amount p else base a u)" for u
    by (simp add: base_def update_conv' map_of_setdefault split: option.splits)
  have bc: "base ?c u = (if u = ?k then base c ?k + 1 else base c u)" for u
    by (simp add: base_def update_conv' map_of_setdefault split: option.splits)
  have moa: "map_of ?a u = (if u = ?k then Some (base a ?k + p_amount p) else map_of a u)" for u
    by (simp add: update_conv' map_of_setdefault split: option.splits)
  have moc: "map_of ?c u = (if u = ?k then Some (base c ?k + 1) else map_of c u)" for u
    by (simp add: update_conv' map_of_setdefault split: option.splits)
  have 1: "map_of ua = (\<lambda>u. if u \<in> p_user ` set (p # rows)
                         then Some (base a u + sum_list (map p_amount (filter (\<lambda>p. p_user p = u) (p # rows))))
                         else map_of a u)"
    unfolding ma by (rule ext) (auto simp: ba moa filter_user_none)
  have 2: "map_of uc = (\<lambda>u. if u \<in> p_user ` set (p # rows)
                         then Some (base c u + int (length (filter (\<lambda>p. p_user p = u) (p # rows))))
                         else map_of c u)"
    unfolding mc by (rule ext) (auto simp: bc moc filter_user_none)
  have 3: "fst ` set uc = fst ` set c \<union> p_user ` set (p # rows)"
    unfolding keys by (simp add: keys_update keys_setdefault)
  have 4: "distinct (map fst c) \<longrightarrow> distinct (map fst uc)"
    using dist by (simp add: distinct_update distinct_setdefault)
  from step r 1 2 3 4 show ?case by simp
qed

lemma dict_get_base: "k \<in> fst ` set d \<Longrightarrow> dict_get d k = Inr (base d k)"
  by (cases "map_of d k") (auto simp: dict_get_def base_def map_of_eq_None_iff)

lemma create_summaries_eq:
  assumes "set users \<subseteq> fst ` set ua" "set users \<subseteq> fst ` set uc"
  shows "create_summaries txid users ua uc s =
           Inr (s\<lparr>summaries := summaries s @ map (summary_row txid ua uc) users\<rparr>)"
  using assms
proof (induction users arbitrary: s)
  case Nil
  show ?case by simp
next
  case (Cons u users)
  let ?s = "TransactionSummary_create txid u (base ua u) (base uc u) s"
  from Cons.prems have step: "create_summaries txid (u # users) ua uc s = create_summaries txid users ua uc ?s"
    by (simp add: dict_get_base ebind_def)
  from Cons.prems have ih: "create_summaries txid users ua uc ?s =
           Inr (?s\<lparr>summaries := summaries ?s @ map (summary_row txid ua uc) users\<rparr>)"
    by (intro Cons.IH) auto
  show ?case
    unfolding step ih
    by (simp add: TransactionSummary_create_def summary_row_def)
qed

lemma check_ok_txid:
  assumes chk: "check_update_transactions data = Inr ()"
    and txid: "getitem data ''coin_txid'' = Inr (PStr tx)"
  shows "contains ''coin_txid'' data = Inr True \<and> length tx = 64
       \<and> (\<exists>xs. getitem data ''pids'' = Inr (PList xs) \<and> list_all isinstance_int xs)"
proof -
  from txid obtain kvs where data: "data = PDict kvs" and k: "map_of kvs (PStr ''coin_txid'') = Some (PStr tx)"
    by (auto dest: getitem_dict)
  from chk data k have len: "length tx = 64"
    by (auto simp: check_update_transactions_def ebind_def assert_def split: if_splits)
  from chk data k len obtain pids where p: "getitem data ''pids'' = Inr pids" 
    and rest: "ebind (assert (isinstance_list pids)) (\<lambda>_.
     ebind (getitem data ''bids'') (\<lambda>bids.
     ebind (assert (isinstance_list bids)) (\<lambda>_.
     ebind (assert_each_int (elems pids)) (\<lambda>_.
     assert_each_int (elems bids))))) = Inr ()"
    by (auto simp: check_update_transactions_def ebind_def assert_def split: option.splits sum.splits)
  from rest obtain xs where xs: "pids = PList xs"
    by (cases pids) (auto simp: ebind_def assert_def)
  from rest xs have "list_all isinstance_int xs"
    by (auto simp: ebind_def assert_def assert_each_int_eq split: sum.splits if_splits)
  with data k len p xs show ?thesis by simp
qed

lemma aggregate_init:
  "\<exists>uc ua. aggregate rows ([], []) = Inr (uc, ua)
     \<and> map_of ua = (\<lambda>u. if u \<in> p_user ` set rows
                         then Some (sum_list (map p_amount (filter (\<lambda>p. p_user p = u) rows)))
                         else None)
     \<and> map_of uc = (\<lambda>u. if u \<in> p_user ` set rows
                         then Some (int (length (filter (\<lambda>p. p_user p = u) rows)))
                         else None)
     \<and> fst ` set uc = p_user ` set rows
     \<and> fst ` set ua = p_user ` set rows
     \<and> distinct (map fst uc)"
proof -
  from aggregate_maps [of rows "[]" "[]"] obtain uc ua
    where agg: "aggregate rows ([], []) = Inr (uc, ua)"
      and mua: "map_of ua = (\<lambda>u. if u \<in> p_user ` set rows
                         then Some (base [] u + sum_list (map p_amount (filter (\<lambda>p. p_user p = u) rows)))
                         else map_of [] u)"
      and muc: "map_of uc = (\<lambda>u. if u \<in> p_user ` set rows
                         then Some (base [] u + int (length (filter (\<lambda>p. p_user p = u) rows)))
                         else map_of [] u)"
      and keys: "fst ` set uc = fst ` set ([] :: (string \<times> int) list) \<union> p_user ` set rows"
      and dist: "distinct (map fst ([] :: (string \<times> int) list)) \<longrightarrow> distinct (map fst uc)"
    by (elim exE conjE) (rule that, assumption+)
  have ka: "fst ` set ua = p_user ` set rows"
    unfolding dom_map_of_conv_image_fst [symmetric] mua by (auto split: if_splits)
  have b0: "base ([] :: (string \<times> int) list) u = 0" for u by (simp add: base_def)
  from mua have mua': "map_of ua = (\<lambda>u. if u \<in> p_user ` set rows
                         then Some (sum_list (map p_amount (filter (\<lambda>p. p_user p = u) rows)))
                         else None)" by (simp add: b0 cong: if_cong)
  from muc have muc': "map_of uc = (\<lambda>u. if u \<in> p_user ` set rows
                         then Some (int (length (filter (\<lambda>p. p_user p = u) rows)))
                         else None)" by (simp add: b0 cong: if_cong)
  from keys have keys': "fst ` set uc = p_user ` set rows" by simp
  from dist have dist': "distinct (map fst uc)" by simp
  from agg mua' muc' keys' dist' ka show ?thesis by blast
qed

lemma Transaction_create_frame:
  "payouts (Transaction_create txid m s) = payouts s"
  "summaries (Transaction_create txid m s) = summaries s"
  "trade_requests (Transaction_create txid m s) = trade_requests s"
  "blocks (Transaction_create txid m s) = blocks s"
  by (simp_all add: Transaction_create_def)

lemma ebind_Inr: "ebind (Inr x) f = f x"
  by (simp add: ebind_def)

lemma ebind_Inl: "ebind (Inl e) f = Inl e"
  by (simp add: ebind_def)

lemma associate_eq:
  assumes chk: "check_update_transactions data = Inr ()"
    and txid: "getitem data ''coin_txid'' = Inr (PStr tx)"
    and mt: "nullable_string_column (get_merged data) = Inr merged_type"
  shows "\<exists>xs uc ua. getitem data ''pids'' = Inr (PList xs)
     \<and> aggregate (payouts_in (PList xs) (payouts s)) ([], []) = Inr (uc, ua)
     \<and> update_transactions data s =
         Inr (PBool True,
              (Transaction_create tx merged_type s)
                \<lparr>summaries := summaries s @
                    map (summary_row tx ua uc) (map fst uc),
                 payouts := (if xs \<noteq> [] then link_payouts (PList xs) tx (payouts s) else payouts s)\<rparr>)"
proof -
  from check_ok_txid [OF chk txid] obtain xs
    where c: "contains ''coin_txid'' data = Inr True"
      and p: "getitem data ''pids'' = Inr (PList xs)" by blast
  let ?rows = "payouts_in (PList xs) (payouts s)"
  from aggregate_init [of ?rows] obtain uc ua
    where agg: "aggregate ?rows ([], []) = Inr (uc, ua)"
      and keys: "fst ` set uc = p_user ` set ?rows"
      and ka: "fst ` set ua = p_user ` set ?rows"
      and dist: "distinct (map fst uc)"
    by (elim exE conjE) (rule that, assumption+)
  let ?s1 = "Transaction_create tx merged_type s"
  have cs: "create_summaries tx (map fst uc) ua uc ?s1 =
           Inr (?s1\<lparr>summaries := summaries ?s1 @
                  map (summary_row tx ua uc) (map fst uc)\<rparr>)"
    using keys ka by (intro create_summaries_eq) auto
  have a1: "associate data s =
      ebind (aggregate ?rows ([], [])) (\<lambda>(user_counts, user_amounts).
      ebind (create_summaries tx (map fst user_counts) user_amounts user_counts ?s1) (\<lambda>s2.
        Inr (PBool True,
             if truthy (PList xs) then s2\<lparr>payouts := link_payouts (PList xs) tx (payouts s2)\<rparr> else s2)))"
    by (simp add: associate_def txid mt p ebind_Inr Let_def Transaction_create_frame)
  have a2: "associate data s = Inr (PBool True,
              (Transaction_create tx merged_type s)
                \<lparr>summaries := summaries s @
                    map (summary_row tx ua uc) (map fst uc),
                 payouts := (if xs \<noteq> [] then link_payouts (PList xs) tx (payouts s) else payouts s)\<rparr>)"
    unfolding a1 agg by (simp add: ebind_Inr cs Transaction_create_frame)
  have a3: "update_transactions data s = uncaught (associate data s)"
    by (simp add: update_transactions_def chk c ebind_Inr)
  from p agg a2 a3 show ?thesis by simp
qed

lemma confirm_check_ok:
  assumes tids: "getitem data ''tids'' = Inr (PList xs)"
  shows "check_confirm_transactions data = Inr ()"
  unfolding check_confirm_transactions_def tids ebind_Inr by (simp add: assert_def)

lemma confirm_run:
  assumes tids: "getitem data ''tids'' = Inr (PList xs)"
  shows "confirm_transactions data s = Inr (PBool True, s\<lparr>transactions := map (\<lambda>t. if PStr (t_txid t) \<in> set xs then t\<lparr>t_confirmed := True\<rparr> else t) (transactions s)\<rparr>)"
  unfolding confirm_transactions_def confirm_check_ok [OF tids] tids ebind_Inr by simp

lemma confirm_map_idem: "map (\<lambda>t. if PStr (t_txid t) \<in> set xs then t\<lparr>t_confirmed := True\<rparr> else t) (map (\<lambda>t. if PStr (t_txid t) \<in> set xs then t\<lparr>t_confirmed := True\<rparr> else t) ts) = map (\<lambda>t. if PStr (t_txid t) \<in> set xs then t\<lparr>t_confirmed := True\<rparr> else t) ts"
  by (induction ts) simp_all

lemma sum_list_delta:
  "distinct us \<Longrightarrow> k \<in> set us \<Longrightarrow> sum_list (map (\<lambda>u. if k = u then c else (0::int)) us) = c"
proof (induction us)
  case Nil
  then show ?case by simp
next
  case (Cons u us)
  show ?case
  proof (cases "k = u")
    case True
    with Cons.prems have "k \<notin> set us" by simp
    then have "sum_list (map (\<lambda>u. if k = u then c else (0::int)) us) = 0"
      by (induction us) auto
    with True show ?thesis by simp
  next
    case False
    with Cons show ?thesis by simp
  qed
qed

lemma sum_by_user:
  assumes d: "distinct us" and sub: "p_user ` set rows \<subseteq> set us"
  shows "sum_list (map (\<lambda>u. sum_list (map p_amount (filter (\<lambda>p. p_user p = u) rows))) us)
         = sum_list (map p_amount rows)"
  using sub
proof (induction rows)
  case Nil
  show ?case by simp
next
  case (Cons p rows)
  let ?S = "\<lambda>u. sum_list (map p_amount (filter (\<lambda>p. p_user p = u) rows))"
  have split: "sum_list (map p_amount (filter (\<lambda>q. p_user q = u) (p # rows)))
        = (if p_user p = u then p_amount p else 0) + ?S u" for u
    by simp
  from Cons.prems have mem: "p_user p \<in> set us" by simp
  from Cons.prems have "p_user ` set rows \<subseteq> set us" by simp
  then have ih: "sum_list (map ?S us) = sum_list (map p_amount rows)" by (rule Cons.IH)
  have "sum_list (map (\<lambda>u. sum_list (map p_amount (filter (\<lambda>q. p_user q = u) (p # rows)))) us)
        = sum_list (map (\<lambda>u. if p_user p = u then p_amount p else 0) us) + sum_list (map ?S us)"
    unfolding split by (rule sum_list_addf)
  also have "\<dots> = p_amount p + sum_list (map p_amount rows)"
    unfolding ih sum_list_delta [OF d mem] ..
  finally show ?case by simp
qed

lemma linked_amounts:
  assumes "\<forall>p \<in> set ps. p_transaction_id p \<noteq> Some tx"
  shows "sum_list (map p_amount (filter (\<lambda>p. p_transaction_id p = Some tx) (link_payouts ids tx ps)))
         = sum_list (map p_amount (payouts_in ids ps))"
  using assms by (induction ps) (simp_all add: link_payouts_def payouts_in_def)

lemma unlinked_amounts:
  assumes "\<forall>p \<in> set ps. p_transaction_id p \<noteq> Some tx"
  shows "filter (\<lambda>p. p_transaction_id p = Some tx) ps = []"
  using assms by (induction ps) simp_all

lemma base_of_map: "map_of d k = Some v \<Longrightarrow> base d k = v"
  by (simp add: base_def)

lemma aggregate_props:
  assumes agg: "aggregate rows ([], []) = Inr (uc, ua)"
  shows "map_of ua = (\<lambda>u. if u \<in> p_user ` set rows
                         then Some (sum_list (map p_amount (filter (\<lambda>p. p_user p = u) rows)))
                         else None)"
    and "map_of uc = (\<lambda>u. if u \<in> p_user ` set rows
                         then Some (int (length (filter (\<lambda>p. p_user p = u) rows)))
                         else None)"
    and "fst ` set uc = p_user ` set rows"
    and "distinct (map fst uc)"
proof -
  from aggregate_init [of rows] obtain uc' ua'
    where a: "aggregate rows ([], []) = Inr (uc', ua')"
      and 1: "map_of ua' = (\<lambda>u. if u \<in> p_user ` set rows
                         then Some (sum_list (map p_amount (filter (\<lambda>p. p_user p = u) rows)))
                         else None)"
      and 2: "map_of uc' = (\<lambda>u. if u \<in> p_user ` set rows
                         then Some (int (length (filter (\<lambda>p. p_user p = u) rows)))
                         else None)"
      and 3: "fst ` set uc' = p_user ` set rows"
      and 4: "distinct (map fst uc')"
    by (elim exE conjE) (rule that, assumption+)
  from a agg have e: "uc' = uc" "ua' = ua" by simp_all
  show "map_of ua = (\<lambda>u. if u \<in> p_user ` set rows
                         then Some (sum_list (map p_amount (filter (\<lambda>p. p_user p = u) rows)))
                         else None)" using 1 unfolding e .
  show "map_of uc = (\<lambda>u. if u \<in> p_user ` set rows
                         then Some (int (length (filter (\<lambda>p. p_user p = u) rows)))
                         else None)" using 2 unfolding e .
  show "fst ` set uc = p_user ` set rows" using 3 unfolding e .
  show "distinct (map fst uc)" using 4 unfolding e .
qed

lemma summary_row_eq:
  assumes agg: "aggregate rows ([], []) = Inr (uc, ua)" and u: "u \<in> p_user ` set rows"
  shows "summary_row tx ua uc u =
     \<lparr>ts_transaction_id = tx, ts_user = u,
      ts_amount = sum_list (map p_amount (filter (\<lambda>p. p_user p = u) rows)),
      ts_count = int (length (filter (\<lambda>p. p_user p = u) rows))\<rparr>"
proof -
  have a: "base ua u = sum_list (map p_amount (filter (\<lambda>p. p_user p = u) rows))"
    by (rule base_of_map) (simp add: aggregate_props(1) [OF agg] u)
  have c: "base uc u = int (length (filter (\<lambda>p. p_user p = u) rows))"
    by (rule base_of_map) (simp add: aggregate_props(2) [OF agg] u)
  show ?thesis by (simp add: summary_row_def a c)
qed

lemma commit_request_check: "check_update_transactions commit_request = Inr ()"
  by (simp add: commit_request_def check_update_transactions_def ebind_def assert_def example_txid_def)

lemma commit_request_payouts:
  "payouts_in (PList [PInt 1, PInt 2, PInt 3]) (payouts example_db) =
     [\<lparr>p_id = 1, p_user = ''A'', p_amount = 5, p_block = ''b1'', p_locked = False,
       p_merged_type = None, p_transaction_id = None\<rparr>,
      \<lparr>p_id = 2, p_user = ''A'', p_amount = 3, p_block = ''b1'', p_locked = False,
       p_merged_type = None, p_transaction_id = None\<rparr>,
      \<lparr>p_id = 3, p_user = ''B'', p_amount = 2, p_block = ''b1'', p_locked = False,
       p_merged_type = None, p_transaction_id = None\<rparr>]"
  by (simp add: payouts_in_def example_db_def)

lemma commit_request_aggregate:
  "aggregate (payouts_in (PList [PInt 1, PInt 2, PInt 3]) (payouts example_db)) ([], []) =
     Inr ([(''A'', 2), (''B'', 1)], [(''A'', 8), (''B'', 2)])"
  unfolding commit_request_payouts
  by (simp add: setdefault_def dict_incr_def ebind_def Let_def)








lemma malformed_length_rejected:
  assumes v: "getitem data ''coin_txid'' = Inr v" and n: "py_len v = Inr n" and ne: "n \<noteq> 64"
  shows "update_transactions data s = Inl (Abort 400)
       \<and> state_after s (update_transactions data s) = s"
proof -
  from v obtain kvs where data: "data = PDict kvs" and k: "map_of kvs (PStr ''coin_txid'') = Some v"
    by (auto dest: getitem_dict)
  have chk: "check_update_transactions data = Inl AssertionError"
    using k n ne by (simp add: data check_update_transactions_def ebind_def assert_def)
  then show ?thesis
    by (simp add: update_transactions_def state_after_def)
qed

lemma malformed_lists_rejected:
  assumes p: "getitem data ''pids'' = Inr pids" and b: "getitem data ''bids'' = Inr bids"
    and sized: "\<forall>v. getitem data ''coin_txid'' = Inr v \<longrightarrow> (\<exists>n. py_len v = Inr n)"
    and bad: "(\<exists>v n. getitem data ''coin_txid'' = Inr v \<and> py_len v = Inr n \<and> n \<noteq> 64)
            \<or> (\<exists>x \<in> set (elems pids). \<not> isinstance_int x)
            \<or> (\<exists>x \<in> set (elems bids). \<not> isinstance_int x)"
  shows "update_transactions data s = Inl (Abort 400)
       \<and> state_after s (update_transactions data s) = s"
proof -
  from p obtain kvs where data: "data = PDict kvs" by (auto dest: getitem_dict)
  have chk: "check_update_transactions data = Inl AssertionError"
  proof (cases "map_of kvs (PStr ''coin_txid'')")
    case None
    with bad data have "\<not> list_all isinstance_int (elems pids) \<or> \<not> list_all isinstance_int (elems bids)"
      by (auto simp: list_all_iff)
    with None p b data show ?thesis
      by (auto simp: check_update_transactions_def ebind_def assert_def assert_each_int_eq
               split: option.splits)
  next
    case (Some v)
    with sized data obtain n where n: "py_len v = Inr n" by auto
    show ?thesis
    proof (cases "n = 64")
      case True
      with bad data Some n
      have "\<not> list_all isinstance_int (elems pids) \<or> \<not> list_all isinstance_int (elems bids)"
        by (auto simp: list_all_iff)
      with Some n True p b data show ?thesis
        by (auto simp: check_update_transactions_def ebind_def assert_def assert_each_int_eq
                 split: option.splits)
    next
      case False
      with Some n data show ?thesis
        by (simp add: check_update_transactions_def ebind_def assert_def)
    qed
  qed
  then show ?thesis
    by (simp add: update_transactions_def state_after_def)
qed

lemma associate_run:
  assumes chk: "check_update_transactions data = Inr ()"
    and txid: "getitem data ''coin_txid'' = Inr (PStr tx)"
    and mt: "nullable_string_column (get_merged data) = Inr merged_type"
    and p: "getitem data ''pids'' = Inr (PList xs)"
    and agg: "aggregate (payouts_in (PList xs) (payouts s)) ([], []) = Inr (uc, ua)"
  shows "update_transactions data s =
         Inr (PBool True,
              (Transaction_create tx merged_type s)
                \<lparr>summaries := summaries s @ map (summary_row tx ua uc) (map fst uc),
                 payouts := (if xs \<noteq> [] then link_payouts (PList xs) tx (payouts s) else payouts s)\<rparr>)"
proof -
  from associate_eq [OF chk txid mt, of s] obtain xs' uc' ua'
    where p': "getitem data ''pids'' = Inr (PList xs')"
      and agg': "aggregate (payouts_in (PList xs') (payouts s)) ([], []) = Inr (uc', ua')"
      and run: "update_transactions data s =
         Inr (PBool True,
              (Transaction_create tx merged_type s)
                \<lparr>summaries := summaries s @ map (summary_row tx ua' uc') (map fst uc'),
                 payouts := (if xs' \<noteq> [] then link_payouts (PList xs') tx (payouts s) else payouts s)\<rparr>)"
    by (elim exE conjE) (rule that, assumption+)
  from p p' have xs: "xs' = xs" by simp
  from agg agg' have e: "uc' = uc" "ua' = ua" unfolding xs by simp_all
  show ?thesis using run unfolding xs e .
qed

lemma complete_each_fails: "kvs \<noteq> [] \<Longrightarrow> complete_each kvs rows = Inl ArgumentError"
proof (cases kvs)
  case Nil
  then show "kvs \<noteq> [] \<Longrightarrow> ?thesis" by simp
next
  case (Cons kq rest)
  obtain k q where kq: "kq = (k, q)" by (cases kq)
  show ?thesis by (simp add: Cons kq filter_TradeRequest_def)
qed

lemma update_sell_requests_only_noop:
  assumes run: "update_sell_requests data s = Inr (r, s')"
  shows "r = PBool True \<and> s' = s"
proof -
  have chk: "check_update_sell_requests data = Inr ()"
  proof (cases "check_update_sell_requests data")
    case (Inl a)
    with run show ?thesis by (cases a) (simp_all add: update_sell_requests_def)
  next
    case (Inr u)
    then show ?thesis by simp
  qed
  from chk obtain completed where c: "getitem data ''completed_srs'' = Inr completed"
    by (cases "getitem data ''completed_srs''")
       (auto simp: check_update_sell_requests_def ebind_def split: sum.splits)
  from chk c have d: "isinstance_dict completed"
    by (auto simp: check_update_sell_requests_def ebind_def assert_def split: sum.splits if_splits)
  then obtain kvs where kvs: "completed = PDict kvs" by (cases completed) simp_all
  from run chk obtain update where u: "getitem data ''update'' = Inr update"
    by (cases "getitem data ''update''") (simp_all add: update_sell_requests_def ebind_def)
  show ?thesis
  proof (cases "truthy update \<and> kvs \<noteq> []")
    case True
    then have "complete_each kvs (trade_requests s) = Inl ArgumentError"
      by (simp add: complete_each_fails)
    with True run chk u c kvs show ?thesis
      by (simp add: update_sell_requests_def ebind_def)
  next
    case False
    with run chk u c kvs show ?thesis
      by (auto simp: update_sell_requests_def ebind_def)
  qed
qed

lemma Transaction_create_example:
  "Transaction_create example_txid None example_db =
     example_db\<lparr>transactions :=
       [\<lparr>t_txid = example_txid, t_confirmed = False, t_merged_type = None\<rparr>]\<rparr>"
  by (simp add: Transaction_create_def example_db_def)

lemma commit_request_facts:
  "getitem commit_request ''coin_txid'' = Inr (PStr example_txid)"
  "getitem commit_request ''pids'' = Inr (PList [PInt 1, PInt 2, PInt 3])"
  "nullable_string_column (get_merged commit_request) = Inr None"
  by (simp_all add: commit_request_def get_merged_def)

lemma commit_request_rows:
  "map (summary_row example_txid [(''A'', 8), (''B'', 2)] [(''A'', 2), (''B'', 1)])
     (map fst [(''A'', 2 :: int), (''B'', 1)]) =
   [\<lparr>ts_transaction_id = example_txid, ts_user = ''A'', ts_amount = 8, ts_count = 2\<rparr>,
    \<lparr>ts_transaction_id = example_txid, ts_user = ''B'', ts_amount = 2, ts_count = 1\<rparr>]"
  by (simp add: summary_row_def base_def)

lemma commit_request_first:
  "update_transactions commit_request example_db = Inr (PBool True, example_db_committed)"
proof -
  have e: "summaries example_db = []" by (simp add: example_db_def)
  show ?thesis
    unfolding associate_run [OF commit_request_check commit_request_facts(1,3,2)
        commit_request_aggregate] commit_request_rows Transaction_create_example
    by (simp add: example_db_committed_def e)
qed



section \<open>Results\<close>

subsection \<open>get\_final\_payouts\<close>

text \<open>
  C10. Whatever the decoded arguments and the stored state, \<open>get_final_payouts\<close>
  answers the list holding exactly one empty list, and the stored state is unchanged.
\<close>

theorem get_final_payouts_empty:
  "get_final_payouts args s = (PList [PList []], s)"
  by (simp add: get_final_payouts_def)

subsection \<open>Claiming\<close>

text \<open>
  C3. A claim that asks for the lock (\<^verbatim>\<open>args['lock']\<close> holds; for payouts the payload
  also carries \<^verbatim>\<open>merged\<close>) is answered; every tuple of the answer is the tuple of a row
  stored after the call, every stored row whose tuple was returned is locked, and when
  nothing is returned the stored state is the one before the call. The read and the
  lock are one step of the model, as they are one transaction of the view.
\<close>

theorem claim_locks_returned:
  "(lock_of args = Inr True \<longrightarrow>
      (\<exists>srs s'. get_sell_requests args s = Inr (PList [PList srs, PBool True], s')
         \<and> (\<forall>t \<in> set srs. \<exists>r \<in> set (trade_requests s'). sr_tuple r = t)
         \<and> (\<forall>r \<in> set (trade_requests s'). sr_tuple r \<in> set srs \<longrightarrow> sr_locked r = True)
         \<and> (srs = [] \<longrightarrow> s' = s)))
   \<and> (lock_of args = Inr True \<and> merged_of args = Inr merged \<longrightarrow>
      (\<exists>pids s'. get_payouts args s = Inr (PList [PList pids, PBool True], s')
         \<and> (\<forall>t \<in> set pids. \<exists>p \<in> set (payouts s'). payout_tuple p = t)
         \<and> (\<forall>p \<in> set (payouts s'). payout_tuple p \<in> set pids \<longrightarrow> p_locked p = True)
         \<and> (pids = [] \<longrightarrow> s' = s)))"
proof (intro conjI impI)
  assume l: "lock_of args = Inr True"
  let ?sel = "pending_unlocked s"
  let ?s' = "s\<lparr>trade_requests := lock_each ?sel (trade_requests s)\<rparr>"
  have run: "get_sell_requests args s = Inr (PList [PList (map sr_tuple ?sel), PBool True], ?s')"
    unfolding get_sell_requests_Inr using l by (intro exI [of _ True]) simp
  have sub: "set ?sel \<subseteq> set (trade_requests s)"
    by (auto simp: pending_unlocked_def)
  have ex: "\<forall>t \<in> set (map sr_tuple ?sel). \<exists>r \<in> set (trade_requests ?s'). sr_tuple r = t"
  proof
    fix t assume "t \<in> set (map sr_tuple ?sel)"
    then obtain r where r: "r \<in> set ?sel" "t = sr_tuple r" by auto
    with sub have "r\<lparr>sr_locked := True\<rparr> \<in> set (trade_requests ?s')"
      by (auto simp: lock_each_eq intro!: image_eqI [where x = r])
    moreover have "sr_tuple (r\<lparr>sr_locked := True\<rparr>) = t"
      using r by (simp add: sr_tuple_def)
    ultimately show "\<exists>r \<in> set (trade_requests ?s'). sr_tuple r = t" by blast
  qed
  have locked: "\<forall>r \<in> set (trade_requests ?s'). sr_tuple r \<in> set (map sr_tuple ?sel) \<longrightarrow> sr_locked r = True"
  proof (intro ballI impI)
    fix r assume r: "r \<in> set (trade_requests ?s')" and t: "sr_tuple r \<in> set (map sr_tuple ?sel)"
    from t obtain q where q: "q \<in> set ?sel" "sr_tuple r = sr_tuple q" by auto
    then have "sr_id r \<in> sr_id ` set ?sel" by (auto dest: tuple_id_sr)
    with r show "sr_locked r = True"
      by (auto simp: lock_each_eq split: if_splits)
  qed
  have empty: "map sr_tuple ?sel = [] \<longrightarrow> ?s' = s"
    by (simp add: lock_each_eq)
  show "\<exists>srs s'. get_sell_requests args s = Inr (PList [PList srs, PBool True], s')
         \<and> (\<forall>t \<in> set srs. \<exists>r \<in> set (trade_requests s'). sr_tuple r = t)
         \<and> (\<forall>r \<in> set (trade_requests s'). sr_tuple r \<in> set srs \<longrightarrow> sr_locked r = True)
         \<and> (srs = [] \<longrightarrow> s' = s)"
    using run ex locked empty by blast
next
  assume "lock_of args = Inr True \<and> merged_of args = Inr merged"
  then have l: "lock_of args = Inr True" and m: "merged_of args = Inr merged" by simp_all
  let ?sel = "eligible_payouts merged s"
  let ?upd = "map (\<lambda>p. if p_id p \<in> set (map p_id ?sel) then p\<lparr>p_locked := True\<rparr> else p) (payouts s)"
  let ?s' = "if ?sel \<noteq> [] then s\<lparr>payouts := ?upd\<rparr> else s"
  have run: "get_payouts args s = Inr (PList [PList (map payout_tuple ?sel), PBool True], ?s')"
    unfolding get_payouts_Inr using l m by (intro exI [of _ True] exI [of _ merged]) simp
  have sub: "set ?sel \<subseteq> set (payouts s)"
    by (auto simp: eligible_payouts_def)
  have ex: "\<forall>t \<in> set (map payout_tuple ?sel). \<exists>p \<in> set (payouts ?s'). payout_tuple p = t"
  proof
    fix t assume t: "t \<in> set (map payout_tuple ?sel)"
    then obtain r where r: "r \<in> set ?sel" "t = payout_tuple r" by auto
    from t have ne: "?sel \<noteq> []" by auto
    from r sub have "r\<lparr>p_locked := True\<rparr> \<in> set ?upd"
      by (auto intro!: image_eqI [where x = r])
    moreover have "payout_tuple (r\<lparr>p_locked := True\<rparr>) = t"
      using r by (simp add: payout_tuple_def)
    ultimately show "\<exists>p \<in> set (payouts ?s'). payout_tuple p = t" using ne by auto
  qed
  have locked: "\<forall>p \<in> set (payouts ?s'). payout_tuple p \<in> set (map payout_tuple ?sel) \<longrightarrow> p_locked p = True"
  proof (intro ballI impI)
    fix r assume r: "r \<in> set (payouts ?s')" and t: "payout_tuple r \<in> set (map payout_tuple ?sel)"
    from t obtain q where q: "q \<in> set ?sel" "payout_tuple r = payout_tuple q" by auto
    then have "p_id r \<in> p_id ` set ?sel" by (auto dest: tuple_id_payout)
    moreover from t have "?sel \<noteq> []" by auto
    ultimately show "p_locked r = True"
      using r by (auto split: if_splits)
  qed
  have empty: "map payout_tuple ?sel = [] \<longrightarrow> ?s' = s"
    by simp
  show "\<exists>pids s'. get_payouts args s = Inr (PList [PList pids, PBool True], s')
         \<and> (\<forall>t \<in> set pids. \<exists>p \<in> set (payouts s'). payout_tuple p = t)
         \<and> (\<forall>p \<in> set (payouts s'). payout_tuple p \<in> set pids \<longrightarrow> p_locked p = True)
         \<and> (pids = [] \<longrightarrow> s' = s)"
    using run ex locked empty by blast
qed

theorem claim_locks_returned_witness:
  "lock_of claim_args = Inr True \<and> merged_of claim_args = Inr PNone
   \<and> (\<exists>srs s'. get_sell_requests claim_args example_db = Inr (PList [PList srs, PBool True], s')
         \<and> (\<forall>t \<in> set srs. \<exists>r \<in> set (trade_requests s'). sr_tuple r = t)
         \<and> (\<forall>r \<in> set (trade_requests s'). sr_tuple r \<in> set srs \<longrightarrow> sr_locked r = True)
         \<and> (srs = [] \<longrightarrow> s' = example_db))
   \<and> (\<exists>pids s'. get_payouts claim_args example_db = Inr (PList [PList pids, PBool True], s')
         \<and> (\<forall>t \<in> set pids. \<exists>p \<in> set (payouts s'). payout_tuple p = t)
         \<and> (\<forall>p \<in> set (payouts s'). payout_tuple p \<in> set pids \<longrightarrow> p_locked p = True)
         \<and> (pids = [] \<longrightarrow> s' = example_db))"
proof -
  have l: "lock_of claim_args = Inr True"
    by (simp add: claim_args_def lock_of_def ebind_def)
  have m: "merged_of claim_args = Inr PNone"
    by (simp add: claim_args_def merged_of_def ebind_def)
  note t = claim_locks_returned [of claim_args example_db PNone]
  note a = conjunct1 [OF t, THEN mp, OF l]
  note b = conjunct2 [OF t, THEN mp, OF conjI [OF l m]]
  from l m a b show ?thesis by (intro conjI)
qed

text \<open>
  C4. Payout ids being unique, every tuple \<open>get_payouts\<close> returns is the tuple of a
  stored payout, and a stored payout whose tuple is returned had no transaction, was
  not locked, carries the requested merged type (none, when the request names none)
  and belongs to a mature block. A payout none of whose blocks is mature is not
  returned, whatever its lock.
\<close>

theorem get_payouts_only_eligible:
  assumes run: "get_payouts args s = Inr (PList [PList pids, l], s')"
    and d: "distinct (map p_id (payouts s))"
  shows "\<exists>merged. merged_of args = Inr merged
     \<and> (\<forall>t \<in> set pids. \<exists>p \<in> set (payouts s). payout_tuple p = t)
     \<and> (\<forall>p \<in> set (payouts s). payout_tuple p \<in> set pids \<longrightarrow>
           p_transaction_id p = None \<and> p_locked p = False
         \<and> ((merged = PNone \<and> p_merged_type p = None) \<or> (\<exists>t. merged = PStr t \<and> p_merged_type p = Some t))
         \<and> (\<exists>b \<in> set (blocks s). b_key b = p_block p \<and> b_mature b = True))
     \<and> (\<forall>p \<in> set (payouts s). (\<forall>b \<in> set (blocks s). b_key b = p_block p \<longrightarrow> b_mature b = False)
           \<longrightarrow> payout_tuple p \<notin> set pids)"
proof -
  from run obtain lock merged where m: "merged_of args = Inr merged"
    and pids: "pids = map payout_tuple (eligible_payouts merged s)"
    unfolding get_payouts_Inr by auto
  let ?sel = "eligible_payouts merged s"
  have sub: "set ?sel \<subseteq> set (payouts s)" by (auto simp: eligible_payouts_def)
  have a: "\<forall>t \<in> set pids. \<exists>p \<in> set (payouts s). payout_tuple p = t"
    using sub pids by auto
  have mem: "p \<in> set ?sel" if "p \<in> set (payouts s)" "payout_tuple p \<in> set pids" for p
    using tuple_in_sel_payout [OF d sub that(1)] that(2) pids by simp
  have b: "\<forall>p \<in> set (payouts s). payout_tuple p \<in> set pids \<longrightarrow>
           p_transaction_id p = None \<and> p_locked p = False
         \<and> ((merged = PNone \<and> p_merged_type p = None) \<or> (\<exists>t. merged = PStr t \<and> p_merged_type p = Some t))
         \<and> (\<exists>b \<in> set (blocks s). b_key b = p_block p \<and> b_mature b = True)"
  proof (intro ballI impI)
    fix p assume "p \<in> set (payouts s)" "payout_tuple p \<in> set pids"
    then have "p \<in> set ?sel" by (rule mem)
    then show "p_transaction_id p = None \<and> p_locked p = False
         \<and> ((merged = PNone \<and> p_merged_type p = None) \<or> (\<exists>t. merged = PStr t \<and> p_merged_type p = Some t))
         \<and> (\<exists>b \<in> set (blocks s). b_key b = p_block p \<and> b_mature b = True)"
      by (simp add: eligible_payouts_def column_eq_iff)
  qed
  have c: "\<forall>p \<in> set (payouts s). (\<forall>b \<in> set (blocks s). b_key b = p_block p \<longrightarrow> b_mature b = False)
           \<longrightarrow> payout_tuple p \<notin> set pids"
  proof (intro ballI impI notI)
    fix p assume p: "p \<in> set (payouts s)" "payout_tuple p \<in> set pids"
      and im: "\<forall>b \<in> set (blocks s). b_key b = p_block p \<longrightarrow> b_mature b = False"
    from p have "p \<in> set ?sel" by (rule mem)
    then have "\<exists>b \<in> set (blocks s). b_key b = p_block p \<and> b_mature b = True"
      by (simp add: eligible_payouts_def)
    with im show False by auto
  qed
  from m a b c show ?thesis by blast
qed

theorem get_payouts_only_eligible_witness:
  "distinct (map p_id (payouts example_db))
   \<and> get_payouts claim_args example_db =
       Inr (PList [PList [PTuple [PStr ''A'', PInt 5, PInt 1], PTuple [PStr ''A'', PInt 3, PInt 2],
                          PTuple [PStr ''B'', PInt 2, PInt 3]], PBool True],
            state_after example_db (get_payouts claim_args example_db))
   \<and> (\<exists>merged. merged_of claim_args = Inr merged
     \<and> (\<forall>t \<in> set [PTuple [PStr ''A'', PInt 5, PInt 1], PTuple [PStr ''A'', PInt 3, PInt 2],
                     PTuple [PStr ''B'', PInt 2, PInt 3]].
           \<exists>p \<in> set (payouts example_db). payout_tuple p = t))"
proof -
  have d: "distinct (map p_id (payouts example_db))"
    by (simp add: example_db_def)
  have run: "get_payouts claim_args example_db =
       Inr (PList [PList [PTuple [PStr ''A'', PInt 5, PInt 1], PTuple [PStr ''A'', PInt 3, PInt 2],
                          PTuple [PStr ''B'', PInt 2, PInt 3]], PBool True],
            state_after example_db (get_payouts claim_args example_db))"
    by (simp add: get_payouts_def claim_args_def lock_of_def merged_of_def ebind_def
          eligible_payouts_def example_db_def payout_tuple_def state_after_def Let_def)
  from get_payouts_only_eligible [OF run d] obtain merged
    where "merged_of claim_args = Inr merged"
      and "\<forall>t \<in> set [PTuple [PStr ''A'', PInt 5, PInt 1], PTuple [PStr ''A'', PInt 3, PInt 2],
                     PTuple [PStr ''B'', PInt 2, PInt 3]].
           \<exists>p \<in> set (payouts example_db). payout_tuple p = t"
    by (elim exE conjE) (rule that, assumption+)
  with d run show ?thesis by (intro conjI exI [of _ merged])
qed

text \<open>
  C9. Ids being unique in both tables, a claim changes nothing but the lock of the
  rows it returns, and only when the lock was asked for: the state after
  \<open>get_sell_requests\<close> (or \<open>get_payouts\<close>) is the state before with \<open>locked\<close> set on the
  returned rows; no status and no transaction link changes.
\<close>

theorem claim_changes_only_locks:
  assumes dsr: "distinct (map sr_id (trade_requests s))"
    and dp: "distinct (map p_id (payouts s))"
  shows "(get_sell_requests args s = Inr (PList [PList srs, PBool lock], s') \<longrightarrow>
            s' = s\<lparr>trade_requests :=
                    map (\<lambda>r. if lock \<and> sr_tuple r \<in> set srs then r\<lparr>sr_locked := True\<rparr> else r)
                      (trade_requests s)\<rparr>
          \<and> map sr_status (trade_requests s') = map sr_status (trade_requests s)
          \<and> map p_transaction_id (payouts s') = map p_transaction_id (payouts s))
       \<and> (get_payouts args s = Inr (PList [PList pids, PBool lock], s') \<longrightarrow>
            s' = s\<lparr>payouts :=
                    map (\<lambda>p. if lock \<and> payout_tuple p \<in> set pids then p\<lparr>p_locked := True\<rparr> else p)
                      (payouts s)\<rparr>
          \<and> map sr_status (trade_requests s') = map sr_status (trade_requests s)
          \<and> map p_transaction_id (payouts s') = map p_transaction_id (payouts s))"
proof (intro conjI impI)
  assume run: "get_sell_requests args s = Inr (PList [PList srs, PBool lock], s')"
  let ?sel = "pending_unlocked s"
  from run have srs: "srs = map sr_tuple ?sel"
    and s': "s' = (if lock then s\<lparr>trade_requests := lock_each ?sel (trade_requests s)\<rparr> else s)"
    unfolding get_sell_requests_Inr by auto
  have sub: "set ?sel \<subseteq> set (trade_requests s)" by (auto simp: pending_unlocked_def)
  have "lock_each ?sel (trade_requests s) =
          map (\<lambda>r. if sr_tuple r \<in> set srs then r\<lparr>sr_locked := True\<rparr> else r) (trade_requests s)"
    unfolding lock_each_eq srs
    by (rule map_cong [OF refl]) (simp add: id_in_sel_iff_sr [OF dsr sub])
  with s' show eq: "s' = s\<lparr>trade_requests :=
                    map (\<lambda>r. if lock \<and> sr_tuple r \<in> set srs then r\<lparr>sr_locked := True\<rparr> else r)
                      (trade_requests s)\<rparr>"
    by (cases lock) simp_all
  show "map sr_status (trade_requests s') = map sr_status (trade_requests s)"
    unfolding eq by (simp add: comp_def if_distrib [of sr_status] cong: if_cong)
  show "map p_transaction_id (payouts s') = map p_transaction_id (payouts s)"
    unfolding eq by simp
next
  assume run: "get_payouts args s = Inr (PList [PList pids, PBool lock], s')"
  then obtain merged where pids: "pids = map payout_tuple (eligible_payouts merged s)"
    and s': "s' = (if lock \<and> eligible_payouts merged s \<noteq> []
                 then s\<lparr>payouts := map (\<lambda>p. if p_id p \<in> set (map p_id (eligible_payouts merged s))
                                      then p\<lparr>p_locked := True\<rparr> else p) (payouts s)\<rparr>
                 else s)"
    unfolding get_payouts_Inr by auto
  let ?sel = "eligible_payouts merged s"
  have sub: "set ?sel \<subseteq> set (payouts s)" by (auto simp: eligible_payouts_def)
  have m: "map (\<lambda>p. if p_id p \<in> set (map p_id ?sel) then p\<lparr>p_locked := True\<rparr> else p) (payouts s) =
          map (\<lambda>p. if payout_tuple p \<in> set pids then p\<lparr>p_locked := True\<rparr> else p) (payouts s)"
    unfolding pids
    by (rule map_cong [OF refl]) (simp add: id_in_sel_iff_payout [OF dp sub])
  have e: "?sel = [] \<Longrightarrow> map (\<lambda>p. if payout_tuple p \<in> set pids then p\<lparr>p_locked := True\<rparr> else p) (payouts s) = payouts s"
    unfolding pids by simp
  show eq: "s' = s\<lparr>payouts :=
                    map (\<lambda>p. if lock \<and> payout_tuple p \<in> set pids then p\<lparr>p_locked := True\<rparr> else p)
                      (payouts s)\<rparr>"
    unfolding s' using m e by (cases lock; cases "?sel = []") simp_all
  show "map sr_status (trade_requests s') = map sr_status (trade_requests s)"
    unfolding eq by simp
  show "map p_transaction_id (payouts s') = map p_transaction_id (payouts s)"
    unfolding eq by (simp add: comp_def if_distrib [of p_transaction_id] cong: if_cong)
qed

theorem claim_changes_only_locks_witness:
  "distinct (map sr_id (trade_requests example_db))
   \<and> distinct (map p_id (payouts example_db))
   \<and> map sr_status (trade_requests (state_after example_db (get_sell_requests claim_args example_db)))
       = map sr_status (trade_requests example_db)
   \<and> map p_transaction_id (payouts (state_after example_db (get_payouts claim_args example_db)))
       = map p_transaction_id (payouts example_db)"
proof -
  have d1: "distinct (map sr_id (trade_requests example_db))"
    by (simp add: example_db_def)
  have d2: "distinct (map p_id (payouts example_db))"
    by (simp add: example_db_def)
  have l: "lock_of claim_args = Inr True"
    by (simp add: claim_args_def lock_of_def ebind_def)
  have m: "merged_of claim_args = Inr PNone"
    by (simp add: claim_args_def merged_of_def ebind_def)
  let ?s1 = "state_after example_db (get_sell_requests claim_args example_db)"
  let ?s2 = "state_after example_db (get_payouts claim_args example_db)"
  have r1: "get_sell_requests claim_args example_db =
      Inr (PList [PList (map sr_tuple (pending_unlocked example_db)), PBool True], ?s1)"
    by (simp add: get_sell_requests_def l state_after_def Let_def)
  have r2: "get_payouts claim_args example_db =
      Inr (PList [PList (map payout_tuple (eligible_payouts PNone example_db)), PBool True], ?s2)"
    by (simp add: get_payouts_def l m ebind_def state_after_def Let_def)
  note t = claim_changes_only_locks [OF d1 d2, of claim_args _ True]
  note a = conjunct1 [OF t, THEN mp, OF r1]
  note b = conjunct2 [OF t, THEN mp, OF r2]
  from d1 d2 conjunct1 [OF conjunct2 [OF a]] conjunct2 [OF conjunct2 [OF b]]
  show ?thesis by (intro conjI)
qed

subsection \<open>Committing payouts\<close>

text \<open>
  C6 as stated does not hold for every such request. With a non-integer payout id and no
  \<^verbatim>\<open>bids\<close> the check raises \<^verbatim>\<open>KeyError\<close> at \<^verbatim>\<open>data['bids']\<close>; with a proof that has
  no length it raises \<^verbatim>\<open>TypeError\<close> at \<^verbatim>\<open>len\<close>. The handler catches
  \<^verbatim>\<open>AssertionError\<close> only, so neither request is answered by \<^verbatim>\<open>abort(400)\<close>.
\<close>

theorem malformed_update_uncaught_counterexample:
  "update_transactions malformed_no_bids example_db = Inl (Uncaught KeyError)
   \<and> update_transactions malformed_unsized example_db = Inl (Uncaught TypeError)"
  by (simp add: update_transactions_def check_update_transactions_def malformed_no_bids_def
        malformed_unsized_def ebind_def assert_def example_txid_def)

text \<open>
  C6 for the requests the check answers itself. A commit payload whose proof has a
  length other than 64 is answered with \<^verbatim>\<open>abort(400)\<close>. So is a payload with an entry
  of \<^verbatim>\<open>pids\<close> or of \<^verbatim>\<open>bids\<close> that fails \<^verbatim>\<open>isinstance(id, int)\<close>, when it carries
  both lists and its proof, if present, has a length. The stored state is the one
  before the call.
\<close>

theorem malformed_update_rejected:
  assumes bad:
    "(\<exists>v n. getitem data ''coin_txid'' = Inr v \<and> py_len v = Inr n \<and> n \<noteq> 64)
     \<or> ((\<forall>v. getitem data ''coin_txid'' = Inr v \<longrightarrow> (\<exists>n. py_len v = Inr n))
        \<and> (\<exists>pids bids. getitem data ''pids'' = Inr pids \<and> getitem data ''bids'' = Inr bids
              \<and> ((\<exists>x \<in> set (elems pids). \<not> isinstance_int x)
                 \<or> (\<exists>x \<in> set (elems bids). \<not> isinstance_int x))))"
  shows "update_transactions data s = Inl (Abort 400)
       \<and> state_after s (update_transactions data s) = s"
  using bad
proof (elim disjE exE conjE)
  fix v n assume v: "getitem data ''coin_txid'' = Inr v" and n: "py_len v = Inr n" and ne: "n \<noteq> 64"
  show ?thesis by (rule malformed_length_rejected [OF v n ne])
next
  fix pids bids
  assume sized: "\<forall>v. getitem data ''coin_txid'' = Inr v \<longrightarrow> (\<exists>n. py_len v = Inr n)"
    and p: "getitem data ''pids'' = Inr pids" and b: "getitem data ''bids'' = Inr bids"
    and x: "\<exists>x \<in> set (elems pids). \<not> isinstance_int x"
  from x have "(\<exists>v n. getitem data ''coin_txid'' = Inr v \<and> py_len v = Inr n \<and> n \<noteq> 64)
            \<or> (\<exists>x \<in> set (elems pids). \<not> isinstance_int x)
            \<or> (\<exists>x \<in> set (elems bids). \<not> isinstance_int x)" by (intro disjI2 disjI1)
  then show ?thesis by (rule malformed_lists_rejected [OF p b sized])
next
  fix pids bids
  assume sized: "\<forall>v. getitem data ''coin_txid'' = Inr v \<longrightarrow> (\<exists>n. py_len v = Inr n)"
    and p: "getitem data ''pids'' = Inr pids" and b: "getitem data ''bids'' = Inr bids"
    and x: "\<exists>x \<in> set (elems bids). \<not> isinstance_int x"
  from x have "(\<exists>v n. getitem data ''coin_txid'' = Inr v \<and> py_len v = Inr n \<and> n \<noteq> 64)
            \<or> (\<exists>x \<in> set (elems pids). \<not> isinstance_int x)
            \<or> (\<exists>x \<in> set (elems bids). \<not> isinstance_int x)" by (intro disjI2)
  then show ?thesis by (rule malformed_lists_rejected [OF p b sized])
qed

theorem malformed_update_rejected_witness:
  "getitem malformed_request ''pids'' = Inr (PList [PInt 1, PStr ''x''])
   \<and> getitem malformed_request ''bids'' = Inr (PList [])
   \<and> \<not> isinstance_int (PStr ''x'')
   \<and> update_transactions malformed_request example_db = Inl (Abort 400)
   \<and> state_after example_db (update_transactions malformed_request example_db) = example_db"
proof -
  have p: "getitem malformed_request ''pids'' = Inr (PList [PInt 1, PStr ''x''])"
    by (simp add: malformed_request_def)
  have b: "getitem malformed_request ''bids'' = Inr (PList [])"
    by (simp add: malformed_request_def)
  have sized: "\<forall>v. getitem malformed_request ''coin_txid'' = Inr v \<longrightarrow> (\<exists>n. py_len v = Inr n)"
    by (simp add: malformed_request_def)
  have ni: "\<not> isinstance_int (PStr ''x'')"
    by simp
  have x: "\<exists>x \<in> set (elems (PList [PInt 1, PStr ''x''])). \<not> isinstance_int x"
    by simp
  have bad:
    "(\<exists>v n. getitem malformed_request ''coin_txid'' = Inr v \<and> py_len v = Inr n \<and> n \<noteq> 64)
     \<or> ((\<forall>v. getitem malformed_request ''coin_txid'' = Inr v \<longrightarrow> (\<exists>n. py_len v = Inr n))
        \<and> (\<exists>pids bids. getitem malformed_request ''pids'' = Inr pids
              \<and> getitem malformed_request ''bids'' = Inr bids
              \<and> ((\<exists>x \<in> set (elems pids). \<not> isinstance_int x)
                 \<or> (\<exists>x \<in> set (elems bids). \<not> isinstance_int x))))"
    using sized p b x by (intro disjI2 conjI exI [of _ "PList [PInt 1, PStr ''x'']"] exI [of _ "PList []"] disjI1)
  note t = malformed_update_rejected [OF bad, of example_db]
  from p b ni conjunct1 [OF t] conjunct2 [OF t] show ?thesis by (intro conjI)
qed

subsection \<open>Confirming transactions\<close>

text \<open>
  C8 as stated, with the identifiers under the key \<^verbatim>\<open>txids\<close>, does not hold. The
  payload key \<open>confirm_transactions\<close> reads is \<^verbatim>\<open>tids\<close>. A payload that carries
  the identifiers under \<^verbatim>\<open>txids\<close> raises \<^verbatim>\<open>KeyError\<close> at \<^verbatim>\<open>data['tids']\<close>, which the
  handler for \<^verbatim>\<open>AssertionError\<close> does not catch: nothing is confirmed.
\<close>

theorem confirm_txids_key_counterexample:
  "confirm_transactions confirm_request_txids example_db_tx = Inl (Uncaught KeyError)
   \<and> state_after example_db_tx (confirm_transactions confirm_request_txids example_db_tx) = example_db_tx
   \<and> map t_confirmed (transactions example_db_tx) = [False]"
  by (simp add: confirm_transactions_def check_confirm_transactions_def confirm_request_txids_def
        ebind_def state_after_def example_db_tx_def)

text \<open>
  C8, with the key the view reads. Given a payload whose \<^verbatim>\<open>tids\<close> is a list, the view
  answers \<^verbatim>\<open>True\<close>; the state after is the state before with \<open>confirmed\<close> set on the
  transactions whose identifier is in the list and every other transaction (and table)
  as it was; every such transaction is confirmed; and the same call on the new state
  changes nothing.
\<close>

theorem confirm_marks_tids:
  assumes tids: "getitem data ''tids'' = Inr (PList xs)"
  shows "\<exists>s'. confirm_transactions data s = Inr (PBool True, s')
     \<and> s' = s\<lparr>transactions :=
               map (\<lambda>t. if PStr (t_txid t) \<in> set xs then t\<lparr>t_confirmed := True\<rparr> else t)
                 (transactions s)\<rparr>
     \<and> (\<forall>t \<in> set (transactions s'). PStr (t_txid t) \<in> set xs \<longrightarrow> t_confirmed t = True)
     \<and> confirm_transactions data s' = Inr (PBool True, s')"
proof -
  let ?f = "\<lambda>t. if PStr (t_txid t) \<in> set xs then t\<lparr>t_confirmed := True\<rparr> else t"
  let ?s' = "s\<lparr>transactions := map ?f (transactions s)\<rparr>"
  have run: "confirm_transactions data s = Inr (PBool True, ?s')"
    by (rule confirm_run [OF tids])
  have tr: "transactions ?s' = map ?f (transactions s)"
    by simp
  have conf: "\<forall>t \<in> set (transactions ?s'). PStr (t_txid t) \<in> set xs \<longrightarrow> t_confirmed t = True"
    unfolding tr
  proof (intro ballI impI)
    fix t assume "t \<in> set (map ?f (transactions s))" and m: "PStr (t_txid t) \<in> set xs"
    then obtain t0 where t0: "t = ?f t0" unfolding set_map by (elim imageE)
    show "t_confirmed t = True"
      using t0 m by (cases "PStr (t_txid t0) \<in> set xs") simp_all
  qed
  have same: "?s'\<lparr>transactions := map ?f (transactions ?s')\<rparr> = ?s'"
    unfolding tr confirm_map_idem by simp
  have again: "confirm_transactions data ?s' = Inr (PBool True, ?s')"
    using confirm_run [OF tids, of ?s'] unfolding same .
  show ?thesis
    by (intro exI [of _ ?s'] conjI) (rule run refl conf again)+
qed

theorem confirm_marks_tids_witness:
  "getitem confirm_request ''tids'' = Inr (PList [PStr example_txid])
   \<and> (\<exists>s'. confirm_transactions confirm_request example_db_tx = Inr (PBool True, s')
     \<and> s' = example_db_tx\<lparr>transactions :=
               map (\<lambda>t. if PStr (t_txid t) \<in> set [PStr example_txid] then t\<lparr>t_confirmed := True\<rparr> else t)
                 (transactions example_db_tx)\<rparr>
     \<and> (\<forall>t \<in> set (transactions s'). PStr (t_txid t) \<in> set [PStr example_txid] \<longrightarrow> t_confirmed t = True)
     \<and> confirm_transactions confirm_request s' = Inr (PBool True, s'))"
proof -
  have h: "getitem confirm_request ''tids'' = Inr (PList [PStr example_txid])"
    by (simp add: confirm_request_def)
  from h confirm_marks_tids [OF h, of example_db_tx] show ?thesis by (intro conjI)
qed

subsection \<open>Resetting locks\<close>

text \<open>
  C2 as stated, for both id lists, does not hold. On the reset path the view unlocks
  the payouts named in \<^verbatim>\<open>pids\<close> only; \<^verbatim>\<open>bids\<close> is checked and counted in the benchmark
  label, and no query uses it. With \<^verbatim>\<open>pids\<close> empty and \<^verbatim>\<open>bids = [7]\<close>, the payout and
  the trade request with id 7 are both still locked after the call.
\<close>

theorem reset_ignores_bids:
  "update_transactions reset_request example_db = Inr (success ''Successfully reset'', example_db)
   \<and> map p_locked (filter (\<lambda>p. p_id p = 7) (payouts example_db)) = [True]
   \<and> map sr_locked (filter (\<lambda>r. sr_id r = 7) (trade_requests example_db)) = [True]"
  by (simp add: update_transactions_def check_update_transactions_def reset_request_def
        reset_locked_def ebind_def assert_def example_db_def)

text \<open>
  C2 for \<^verbatim>\<open>pids\<close>. A checked payload without \<^verbatim>\<open>coin_txid\<close> whose \<^verbatim>\<open>reset\<close> is
  \<^verbatim>\<open>True\<close> is answered with the success response; the state after is the state before
  with \<open>locked\<close> cleared on the payouts whose id is in \<^verbatim>\<open>pids\<close>. No transaction link
  changes, and the trade requests (their status with them) are as they were.
\<close>

theorem reset_unlocks_pids:
  assumes chk: "check_update_transactions data = Inr ()"
    and no_txid: "contains ''coin_txid'' data = Inr False"
    and reset: "getitem data ''reset'' = Inr (PBool True)"
    and pids: "getitem data ''pids'' = Inr (PList xs)"
  shows "\<exists>s'. update_transactions data s = Inr (success ''Successfully reset'', s')
     \<and> s' = s\<lparr>payouts :=
               map (\<lambda>p. if p_id p \<in> int_of ` set xs then p\<lparr>p_locked := False\<rparr> else p) (payouts s)\<rparr>
     \<and> (\<forall>p \<in> set (payouts s'). p_id p \<in> int_of ` set xs \<longrightarrow> p_locked p = False)
     \<and> map p_transaction_id (payouts s') = map p_transaction_id (payouts s)
     \<and> trade_requests s' = trade_requests s"
proof -
  let ?f = "\<lambda>p. if p_id p \<in> int_of ` set xs then p\<lparr>p_locked := False\<rparr> else p"
  let ?s' = "s\<lparr>payouts := map ?f (payouts s)\<rparr>"
  have noop: "xs = [] \<Longrightarrow> map ?f (payouts s) = payouts s"
    by simp
  have rl: "reset_locked data s = Inr (success ''Successfully reset'', ?s')"
    unfolding reset_locked_def pids ebind_Inr
    by (cases "xs = []") (simp_all add: unlock_payouts_def)
  have run: "update_transactions data s = Inr (success ''Successfully reset'', ?s')"
    unfolding update_transactions_def chk no_txid reset ebind_Inr
    by (simp add: rl)
  have rows: "payouts ?s' = map ?f (payouts s)" by simp
  have a: "\<forall>p \<in> set (payouts ?s'). p_id p \<in> int_of ` set xs \<longrightarrow> p_locked p = False"
  proof (intro ballI impI)
    fix p assume "p \<in> set (payouts ?s')" and m: "p_id p \<in> int_of ` set xs"
    then obtain p0 where p0: "p = ?f p0" unfolding rows set_map by (elim imageE)
    show "p_locked p = False"
      using p0 m by (cases "p_id p0 \<in> int_of ` set xs") simp_all
  qed
  have b: "map p_transaction_id (payouts ?s') = map p_transaction_id (payouts s)"
    unfolding rows by (induction "payouts s") simp_all
  have c: "trade_requests ?s' = trade_requests s" by simp
  show ?thesis
    by (intro exI [of _ ?s'] conjI) (rule run refl a b c)+
qed

theorem reset_unlocks_pids_witness:
  "check_update_transactions reset_request_pids = Inr ()
   \<and> contains ''coin_txid'' reset_request_pids = Inr False
   \<and> getitem reset_request_pids ''reset'' = Inr (PBool True)
   \<and> getitem reset_request_pids ''pids'' = Inr (PList [PInt 7])
   \<and> (\<exists>s'. update_transactions reset_request_pids example_db = Inr (success ''Successfully reset'', s')
     \<and> s' = example_db\<lparr>payouts :=
               map (\<lambda>p. if p_id p \<in> int_of ` set [PInt 7] then p\<lparr>p_locked := False\<rparr> else p)
                 (payouts example_db)\<rparr>
     \<and> (\<forall>p \<in> set (payouts s'). p_id p \<in> int_of ` set [PInt 7] \<longrightarrow> p_locked p = False)
     \<and> map p_transaction_id (payouts s') = map p_transaction_id (payouts example_db)
     \<and> trade_requests s' = trade_requests example_db)"
proof -
  have chk: "check_update_transactions reset_request_pids = Inr ()"
    by (simp add: reset_request_pids_def check_update_transactions_def ebind_def assert_def)
  have c: "contains ''coin_txid'' reset_request_pids = Inr False"
    by (simp add: reset_request_pids_def)
  have r: "getitem reset_request_pids ''reset'' = Inr (PBool True)"
    by (simp add: reset_request_pids_def)
  have p: "getitem reset_request_pids ''pids'' = Inr (PList [PInt 7])"
    by (simp add: reset_request_pids_def)
  from chk c r p reset_unlocks_pids [OF chk c r p, of example_db] show ?thesis
    by (intro conjI)
qed

subsection \<open>Completing sell requests\<close>

text \<open>
  C7 at the payloads of the example. The payload as the serializer delivers it has
  string keys, which the check \<^verbatim>\<open>isinstance(sr_id, int)\<close> refuses: the view answers
  \<^verbatim>\<open>abort(400)\<close>. With integer keys the check passes and the first query of the loop,
  \<^verbatim>\<open>.filter(TradeRequest)\<close>, raises: the view fails and commits nothing. In both cases
  the trade requests 1 and 7 are stored and neither is completed.
\<close>

theorem update_sell_requests_never_completes:
  "update_sell_requests sell_update_json example_db = Inl (Abort 400)
   \<and> update_sell_requests sell_update_request example_db = Inl (Uncaught ArgumentError)
   \<and> map sr_id (trade_requests example_db) = [1, 7]
   \<and> map sr_status (trade_requests example_db) = [0, 0]"
  by (simp add: update_sell_requests_def check_update_sell_requests_def sell_update_json_def
        sell_update_request_def ebind_def assert_def filter_TradeRequest_def example_db_def)

subsection \<open>Committing payouts: summaries\<close>

text \<open>
  C5. Take a checked commit payload with a proof \<open>tx\<close> under which no summary and no
  payout is stored yet. The call succeeds and appends one summary row per user of the
  payouts named in \<^verbatim>\<open>pids\<close>: the row of a user holds the sum of that user's named
  payout amounts and their number. The users of the new rows are distinct, the amounts
  of the new rows add up to the amounts of the named payouts, and after the call the
  summaries of \<open>tx\<close> add up to the amounts of the payouts linked to \<open>tx\<close>. The witness is
  the example of the specification: payouts (A, 5), (A, 3), (B, 2) give the rows
  (A, 8, 2) and (B, 2, 1).
\<close>

theorem commit_summaries:
  assumes chk: "check_update_transactions data = Inr ()"
    and txid: "getitem data ''coin_txid'' = Inr (PStr tx)"
    and mt: "nullable_string_column (get_merged data) = Inr merged_type"
    and pids: "getitem data ''pids'' = Inr pids"
    and fresh_s: "\<forall>r \<in> set (summaries s). ts_transaction_id r \<noteq> tx"
    and fresh_p: "\<forall>p \<in> set (payouts s). p_transaction_id p \<noteq> Some tx"
  shows "\<exists>s' new. update_transactions data s = Inr (PBool True, s')
     \<and> summaries s' = summaries s @ new
     \<and> set new =
         (\<lambda>u. \<lparr>ts_transaction_id = tx, ts_user = u,
                ts_amount = sum_list (map p_amount (filter (\<lambda>p. p_user p = u) (payouts_in pids (payouts s)))),
                ts_count = int (length (filter (\<lambda>p. p_user p = u) (payouts_in pids (payouts s))))\<rparr>)
           ` p_user ` set (payouts_in pids (payouts s))
     \<and> distinct (map ts_user new)
     \<and> sum_list (map ts_amount new) = sum_list (map p_amount (payouts_in pids (payouts s)))
     \<and> sum_list (map ts_amount (filter (\<lambda>r. ts_transaction_id r = tx) (summaries s')))
         = sum_list (map p_amount (filter (\<lambda>p. p_transaction_id p = Some tx) (payouts s')))"
proof -
  from associate_eq [OF chk txid mt, of s] obtain xs uc ua
    where p: "getitem data ''pids'' = Inr (PList xs)"
      and agg: "aggregate (payouts_in (PList xs) (payouts s)) ([], []) = Inr (uc, ua)"
      and run: "update_transactions data s =
         Inr (PBool True,
              (Transaction_create tx merged_type s)
                \<lparr>summaries := summaries s @
                    map (summary_row tx ua uc) (map fst uc),
                 payouts := (if xs \<noteq> [] then link_payouts (PList xs) tx (payouts s) else payouts s)\<rparr>)"
    by (elim exE conjE) (rule that, assumption+)
  from p pids have pl: "pids = PList xs" by simp
  let ?rows = "payouts_in (PList xs) (payouts s)"
  let ?users = "map fst uc"
  let ?new = "map (summary_row tx ua uc) ?users"
  let ?mk = "\<lambda>u. \<lparr>ts_transaction_id = tx, ts_user = u,
                ts_amount = sum_list (map p_amount (filter (\<lambda>p. p_user p = u) ?rows)),
                ts_count = int (length (filter (\<lambda>p. p_user p = u) ?rows))\<rparr>"
  let ?s' = "(Transaction_create tx merged_type s)
                \<lparr>summaries := summaries s @ ?new,
                 payouts := (if xs \<noteq> [] then link_payouts (PList xs) tx (payouts s) else payouts s)\<rparr>"
  note users = aggregate_props(3) [OF agg]
  note dist = aggregate_props(4) [OF agg]
  have run': "update_transactions data s = Inr (PBool True, ?s')"
    by (rule run)
  have new_eq: "?new = map ?mk ?users"
    by (rule map_cong [OF refl]) (rule summary_row_eq [OF agg], simp add: users [symmetric])
  have a: "summaries ?s' = summaries s @ ?new" by simp
  have b: "set ?new = ?mk ` p_user ` set ?rows"
    unfolding new_eq set_map users ..
  have c: "distinct (map ts_user ?new)"
    unfolding new_eq using dist by (simp add: comp_def)
  have d: "sum_list (map ts_amount ?new) = sum_list (map p_amount ?rows)"
  proof -
    have m: "map ts_amount (map ?mk ?users) =
          map (\<lambda>u. sum_list (map p_amount (filter (\<lambda>p. p_user p = u) ?rows))) ?users"
      unfolding map_map by (rule map_cong [OF refl]) simp
    have sub: "p_user ` set ?rows \<subseteq> set ?users" using users by simp
    show ?thesis
      unfolding new_eq m by (rule sum_by_user [OF dist sub])
  qed
  have old: "filter (\<lambda>r. ts_transaction_id r = tx) (summaries s) = []"
    using fresh_s by (induction "summaries s") (auto simp: filter_empty_conv)
  have newtx: "filter (\<lambda>r. ts_transaction_id r = tx) ?new = ?new"
    unfolding new_eq by (simp add: comp_def)
  have lhs: "filter (\<lambda>r. ts_transaction_id r = tx) (summaries ?s') = ?new"
    unfolding a filter_append old newtx by simp
  have rhs: "sum_list (map p_amount (filter (\<lambda>p. p_transaction_id p = Some tx) (payouts ?s')))
        = sum_list (map p_amount ?rows)"
  proof (cases "xs = []")
    case True
    then have "?rows = []" by (simp add: payouts_in_def)
    with True unlinked_amounts [OF fresh_p] show ?thesis by simp
  next
    case False
    with linked_amounts [OF fresh_p, of "PList xs"] show ?thesis by simp
  qed
  have e: "sum_list (map ts_amount (filter (\<lambda>r. ts_transaction_id r = tx) (summaries ?s')))
         = sum_list (map p_amount (filter (\<lambda>p. p_transaction_id p = Some tx) (payouts ?s')))"
    unfolding lhs rhs by (rule d)
  show ?thesis
    unfolding pl
    by (intro exI [of _ ?s'] exI [of _ ?new] conjI) (rule run' a b c d e)+
qed

theorem commit_summaries_witness:
  "check_update_transactions commit_request = Inr ()
   \<and> getitem commit_request ''coin_txid'' = Inr (PStr example_txid)
   \<and> getitem commit_request ''pids'' = Inr (PList [PInt 1, PInt 2, PInt 3])
   \<and> (\<exists>s' new. update_transactions commit_request example_db = Inr (PBool True, s')
     \<and> summaries s' = summaries example_db @ new
     \<and> set new =
         (\<lambda>u. \<lparr>ts_transaction_id = example_txid, ts_user = u,
                ts_amount = sum_list (map p_amount (filter (\<lambda>p. p_user p = u)
                  (payouts_in (PList [PInt 1, PInt 2, PInt 3]) (payouts example_db)))),
                ts_count = int (length (filter (\<lambda>p. p_user p = u)
                  (payouts_in (PList [PInt 1, PInt 2, PInt 3]) (payouts example_db))))\<rparr>)
           ` p_user ` set (payouts_in (PList [PInt 1, PInt 2, PInt 3]) (payouts example_db))
     \<and> distinct (map ts_user new)
     \<and> sum_list (map ts_amount new)
         = sum_list (map p_amount (payouts_in (PList [PInt 1, PInt 2, PInt 3]) (payouts example_db)))
     \<and> sum_list (map ts_amount (filter (\<lambda>r. ts_transaction_id r = example_txid) (summaries s')))
         = sum_list (map p_amount (filter (\<lambda>p. p_transaction_id p = Some example_txid) (payouts s'))))
   \<and> summaries (state_after example_db (update_transactions commit_request example_db)) =
     [\<lparr>ts_transaction_id = example_txid, ts_user = ''A'', ts_amount = 8, ts_count = 2\<rparr>,
      \<lparr>ts_transaction_id = example_txid, ts_user = ''B'', ts_amount = 2, ts_count = 1\<rparr>]"
proof -
  note chk = commit_request_check
  note t = commit_request_facts(1)
  note m = commit_request_facts(3)
  note p = commit_request_facts(2)
  have f1: "\<forall>r \<in> set (summaries example_db). ts_transaction_id r \<noteq> example_txid"
    by (simp add: example_db_def)
  have f2: "\<forall>p \<in> set (payouts example_db). p_transaction_id p \<noteq> Some example_txid"
    by (simp add: example_db_def)
  have rows: "summaries (state_after example_db (update_transactions commit_request example_db)) =
     [\<lparr>ts_transaction_id = example_txid, ts_user = ''A'', ts_amount = 8, ts_count = 2\<rparr>,
      \<lparr>ts_transaction_id = example_txid, ts_user = ''B'', ts_amount = 2, ts_count = 1\<rparr>]"
    unfolding commit_request_first by (simp add: state_after_def example_db_committed_def)
  from chk t p commit_summaries [OF chk t m p f1 f2] rows
  show ?thesis by (intro conjI)
qed

subsection \<open>Committing payouts: retries\<close>




end
